theory Spec2Isabelle
  imports Main "HOL-Library.Word" "HOL-Library.Finite_Map"
begin

unbundle bit_operations_syntax

section \<open>The sharded map of \<^verbatim>\<open>db/map.go\<close>\<close>

text \<open>
  A shallow embedding of the sharded, file backed index of \<^verbatim>\<open>src/db/map.go\<close>.
  Go maps are finite maps, Go strings are byte strings (\<open>string\<close>, a list of 8-bit
  characters), a shard file is the list of its bytes.  The index maps of one record hold
  pointers to one \<^verbatim>\<open>ShardOffset\<close> object; the objects live in an explicit store
  (\<open>heap\<close>, a list indexed by address) so that aliasing is visible.  The locks are not
  modelled: every operation runs alone, from its first statement to its return.
\<close>

subsection \<open>Data\<close>

type_synonym byte = "8 word"
type_synonym addr = nat

text \<open>The errors of the engine, named by their kind.  The messages of the source:
  \<^verbatim>\<open>"invalid value"\<close> (\<open>InvalidArgument\<close>), \<^verbatim>\<open>"object footprint was already evicted"\<close>
  (\<open>AlreadyEvicted\<close>), \<^verbatim>\<open>"not found"\<close> and
  \<^verbatim>\<open>"object under specified unique key was not found"\<close> (\<open>NotFound\<close>),
  \<^verbatim>\<open>"unique primary key duplicate"\<close> (\<open>DuplicateKey\<close>).  \<open>IoError\<close> is an error of the
  file, \<open>EncodeError\<close> one of the codec, \<open>Panic\<close> a run-time panic of Go (index out
  of range, nil dereference, negative slice length).\<close>

datatype error = NotFound | AlreadyEvicted | DuplicateKey | InvalidArgument
  | EncodeError | IoError | Panic

record ShardOffset =
  Start :: int
  Length :: int
  Deleted :: bool

text \<open>The index descriptor handed to \<^verbatim>\<open>Set\<close>; the source reads these three fields.\<close>

record FullDataIndex =
  Field :: string
  Data :: string
  Unique :: bool

text \<open>A shard.  Its declaration is not part of \<^verbatim>\<open>map.go\<close>; the fields are the ones
  \<^verbatim>\<open>map.go\<close> reads and writes (\<^verbatim>\<open>Id\<close>, \<^verbatim>\<open>Items\<close>, \<^verbatim>\<open>file\<close>), and the
  capacity map behind \<^verbatim>\<open>GetCapacityKey\<close> and \<^verbatim>\<open>SetCapacityKey\<close>.  \<open>Items\<close> maps an index
  key to the address of its \<^verbatim>\<open>ShardOffset\<close>.\<close>

record ConcurrentMapShared =
  Id_shard :: int
  Items :: "(string, addr) fmap"
  capacity :: "(string, int) fmap"
  file_shard :: "byte list"

record ConcurrentMap =
  Shared :: "ConcurrentMapShared list"
  counter :: "64 word"
  SyncDestination :: string
  heap :: "ShardOffset list"

definition SHARD_COUNT :: int where
  "SHARD_COUNT = 32"

subsection \<open>\<^verbatim>\<open>strconv.Itoa\<close>\<close>

definition digit_char :: "nat \<Rightarrow> char" where
  "digit_char d = ''0123456789'' ! d"

fun digits :: "nat \<Rightarrow> string" where
  "digits n = (if n < 10 then [digit_char n] else digits (n div 10) @ [digit_char (n mod 10)])"

declare digits.simps [simp del]

definition Itoa :: "int \<Rightarrow> string" where
  "Itoa i = (if i < 0 then CHR ''-'' # digits (nat (- i)) else digits (nat i))"

subsection \<open>Routing\<close>

text \<open>\<^verbatim>\<open>fnv32\<close>: the loop over the bytes of the key, from index \<open>i\<close> on.\<close>

fun fnv32_loop :: "string \<Rightarrow> 32 word \<Rightarrow> 32 word" where
  "fnv32_loop [] hash = hash"
| "fnv32_loop (c # key) hash = fnv32_loop key ((hash * 16777619) XOR of_char c)"

definition fnv32 :: "string \<Rightarrow> 32 word" where
  "fnv32 key = fnv32_loop key 2166136261"

text \<open>\<^verbatim>\<open>GetShard\<close> returns \<^verbatim>\<open>m.Shared[uint(fnv32(key))%uint(SHARD_COUNT)]\<close>; the model
  returns the index of that shard in \<open>Shared\<close>, and the panic of the slice access when the
  index is out of range.\<close>

definition GetShard :: "ConcurrentMap \<Rightarrow> string \<Rightarrow> error + nat" where
  "GetShard m key =
     (let n = unat (fnv32 key) mod nat SHARD_COUNT
      in if n < length (Shared m) then Inr n else Inl Panic)"

definition SetCounterIndex :: "64 word \<Rightarrow> ConcurrentMap \<Rightarrow> error option \<times> ConcurrentMap" where
  "SetCounterIndex v m =
     (if v \<ge> word_of_int SHARD_COUNT \<or> v < 0 then (Some InvalidArgument, m)
      else (None, m\<lparr>counter := v\<rparr>))"

definition GetNextShard :: "ConcurrentMap \<Rightarrow> (error + nat) \<times> ConcurrentMap" where
  "GetNextShard m =
     (let c = counter m + 1;
          c' = (if c \<ge> 32 then 0 else c);
          m' = m\<lparr>counter := c'\<rparr>
      in if unat c' < length (Shared m') then (Inr (unat c'), m') else (Inl Panic, m'))"

subsection \<open>The capacity map and the shard constructor\<close>

text \<open>Modelled from the spec: \<^verbatim>\<open>GetCapacityKey\<close> is a method of the shard, whose file is
  not among the sources.  The capacity map is "per shard, a mapping from the fingerprint to
  the highest ordinal currently assigned"; the method reads it, and a fingerprint that was
  never stored reads as 0, the zero value of a Go map of integers.\<close>

definition GetCapacityKey :: "ConcurrentMapShared \<Rightarrow> string \<Rightarrow> int" where
  "GetCapacityKey shard key = (case fmlookup (capacity shard) key of None \<Rightarrow> 0 | Some v \<Rightarrow> v)"

text \<open>Modelled from the spec: \<^verbatim>\<open>SetCapacityKey\<close>, the method of the shard that stores a
  value for a fingerprint in the capacity map ("update the capacity map").\<close>

definition SetCapacityKey :: "ConcurrentMapShared \<Rightarrow> string \<Rightarrow> int \<Rightarrow> ConcurrentMapShared" where
  "SetCapacityKey shard key v = shard\<lparr>capacity := fmupd key v (capacity shard)\<rparr>"

text \<open>Modelled from the spec: \<^verbatim>\<open>NewConcurrentMapShared\<close>, the constructor of a shard, which
  is "created at engine open" with its integer id and its file; both maps start empty.\<close>

definition NewConcurrentMapShared :: "string \<Rightarrow> int \<Rightarrow> byte list \<Rightarrow> ConcurrentMapShared" where
  "NewConcurrentMapShared syncDest i f =
     \<lparr>Id_shard = i, Items = fmempty, capacity = fmempty, file_shard = f\<rparr>"

text \<open>\<^verbatim>\<open>NewConcurrentMap\<close> reads \<^verbatim>\<open>files[i]\<close> for every \<open>i < SHARD_COUNT\<close> and panics when
  there are fewer files.  The store of descriptors starts empty.\<close>

definition NewConcurrentMap :: "string \<Rightarrow> byte list list \<Rightarrow> error + ConcurrentMap" where
  "NewConcurrentMap syncDest files =
     (if length files < nat SHARD_COUNT then Inl Panic
      else Inr \<lparr>Shared = map (\<lambda>i. NewConcurrentMapShared syncDest (int i) (files ! i))
                              [0..<nat SHARD_COUNT],
                counter = 0, SyncDestination = syncDest, heap = []\<rparr>)"

subsection \<open>Reading a record\<close>

text \<open>\<^verbatim>\<open>ReadAtOffset\<close> makes a zeroed buffer of \<^verbatim>\<open>offset.Length\<close> bytes (a panic when the
  length is negative) and fills it with \<^verbatim>\<open>File.ReadAt\<close>, which fails on a negative
  offset and when the file ends before the buffer is full.  The buffer is returned with
  the error, as in the source.\<close>

definition ReadAtOffset :: "ConcurrentMapShared \<Rightarrow> ShardOffset \<Rightarrow> byte list \<times> error option" where
  "ReadAtOffset shard offset =
     (if Length offset < 0 then ([], Some Panic)
      else
        let len = nat (Length offset) in
        if Start offset < 0 then (replicate len 0, Some IoError)
        else
          let got = take len (drop (nat (Start offset)) (file_shard shard))
          in (got @ replicate (len - length got) 0,
              if length got < len then Some IoError else None))"

text \<open>The operations that take a \<^verbatim>\<open>*ConcurrentMapShared\<close> take the index of the shard in
  \<open>Shared\<close> here; an index out of range and an address outside the store are panics.\<close>

definition FindByUniqueKey ::
  "ConcurrentMap \<Rightarrow> nat \<Rightarrow> string \<Rightarrow> string \<Rightarrow> byte list \<times> error option" where
  "FindByUniqueKey m si key v =
     (if si < length (Shared m) then
        (case fmlookup (Items (Shared m ! si)) (key @ '':'' @ v) of
           Some a \<Rightarrow>
             if a < length (heap m) then ReadAtOffset (Shared m ! si) (heap m ! a)
             else ([], Some Panic)
         | None \<Rightarrow> ([], Some NotFound))
      else ([], Some Panic))"

definition FindById :: "ConcurrentMap \<Rightarrow> nat \<Rightarrow> string \<Rightarrow> byte list \<times> error option" where
  "FindById m si ident = FindByUniqueKey m si ''id'' ident"

subsection \<open>Logical deletion by a unique key\<close>

definition set_Deleted :: "bool \<Rightarrow> addr \<Rightarrow> ShardOffset list \<Rightarrow> ShardOffset list" where
  "set_Deleted b a h = h[a := (h ! a)\<lparr>Deleted := b\<rparr>]"

definition DeleteByUniqueKey ::
  "nat \<Rightarrow> string \<Rightarrow> string \<Rightarrow> ConcurrentMap \<Rightarrow> error option \<times> ConcurrentMap" where
  "DeleteByUniqueKey si key v m =
     (if si < length (Shared m) then
        (case fmlookup (Items (Shared m ! si)) (key @ '':'' @ v) of
           Some a \<Rightarrow>
             if a < length (heap m) then (None, m\<lparr>heap := set_Deleted True a (heap m)\<rparr>)
             else (Some Panic, m)
         | None \<Rightarrow> (Some NotFound, m))
      else (Some Panic, m))"

definition DeleteById :: "nat \<Rightarrow> string \<Rightarrow> ConcurrentMap \<Rightarrow> error option \<times> ConcurrentMap" where
  "DeleteById si ident m = DeleteByUniqueKey si ''id'' ident m"

definition RestoreByUniqueKey ::
  "nat \<Rightarrow> string \<Rightarrow> string \<Rightarrow> ConcurrentMap \<Rightarrow> error option \<times> ConcurrentMap" where
  "RestoreByUniqueKey si key v m =
     (if si < length (Shared m) then
        (case fmlookup (Items (Shared m ! si)) (key @ '':'' @ v) of
           Some a \<Rightarrow>
             if a < length (heap m) then (None, m\<lparr>heap := set_Deleted False a (heap m)\<rparr>)
             else (Some Panic, m)
         | None \<Rightarrow> (Some AlreadyEvicted, m))
      else (Some Panic, m))"

subsection \<open>Scans over the ordinals of a fingerprint\<close>

text \<open>How an inner loop is left: by its \<^verbatim>\<open>break\<close> or its loop condition (the function goes
  on with the next shard), by a \<^verbatim>\<open>return\<close>, or by a panic.\<close>

datatype exit = Fallthrough | Returned | Panicked

text \<open>The inner loop of \<^verbatim>\<open>DeleteByKey\<close>, from ordinal \<open>i\<close> on.  After a descriptor is marked
  the source runs \<^verbatim>\<open>i++\<close> and then the \<^verbatim>\<open>i--\<close> of the loop header, so the same ordinal is
  looked at again; a \<^verbatim>\<open>continue\<close> runs the \<^verbatim>\<open>i--\<close> only.\<close>

function delete_scan ::
  "(string, addr) fmap \<Rightarrow> string \<Rightarrow> int \<Rightarrow> int \<Rightarrow> ShardOffset list \<Rightarrow> int \<Rightarrow> string list
     \<Rightarrow> exit \<times> ShardOffset list \<times> int \<times> string list" where
  "delete_scan items en limit i h cnt dests =
     (if i \<ge> 0 then
        (let tempKey = Itoa i @ en in
         case fmlookup items tempKey of
           Some a \<Rightarrow>
             if a < length h then
               if Deleted (h ! a) then delete_scan items en limit (i - 1) h cnt dests
               else
                 let h' = set_Deleted True a h;
                     dests' = dests @ [tempKey];
                     cnt' = cnt + 1
                 in if cnt' = limit then (Returned, h', cnt', dests')
                    else delete_scan items en limit i h' cnt' dests'
             else (Panicked, h, cnt, dests)
         | None \<Rightarrow> (Fallthrough, h, cnt, dests))
      else (Fallthrough, h, cnt, dests))"
  by pat_completeness auto

fun DeleteByKey_shards ::
  "nat list \<Rightarrow> string \<Rightarrow> string \<Rightarrow> int \<Rightarrow> ConcurrentMap \<Rightarrow> int \<Rightarrow> string list
     \<Rightarrow> (error + string list) \<times> ConcurrentMap" where
  "DeleteByKey_shards [] key v limit m cnt dests = (Inr dests, m)"
| "DeleteByKey_shards (n # ns) key v limit m cnt dests =
     (if n < length (Shared m) then
        (let shard = Shared m ! n;
             kv = key @ '':'' @ v;
             en = '':'' @ kv;
             len = GetCapacityKey shard kv
         in case delete_scan (Items shard) en limit (len - 1) (heap m) cnt dests of
              (Fallthrough, h, cnt', dests') \<Rightarrow>
                DeleteByKey_shards ns key v limit (m\<lparr>heap := h\<rparr>) cnt' dests'
            | (Returned, h, cnt', dests') \<Rightarrow> (Inr dests', m\<lparr>heap := h\<rparr>)
            | (Panicked, h, cnt', dests') \<Rightarrow> (Inl Panic, m\<lparr>heap := h\<rparr>))
      else (Inl Panic, m))"

definition DeleteByKey ::
  "string \<Rightarrow> string \<Rightarrow> int \<Rightarrow> ConcurrentMap \<Rightarrow> (error + string list) \<times> ConcurrentMap" where
  "DeleteByKey key v limit m = DeleteByKey_shards [0..<nat SHARD_COUNT] key v limit m 0 []"

text \<open>The inner loop of \<^verbatim>\<open>RestoreByKey\<close>, the same with the flag reversed.\<close>

function restore_scan ::
  "(string, addr) fmap \<Rightarrow> string \<Rightarrow> int \<Rightarrow> int \<Rightarrow> ShardOffset list \<Rightarrow> int
     \<Rightarrow> exit \<times> ShardOffset list \<times> int" where
  "restore_scan items en limit i h cnt =
     (if i \<ge> 0 then
        (let tempKey = Itoa i @ en in
         case fmlookup items tempKey of
           Some a \<Rightarrow>
             if a < length h then
               if \<not> Deleted (h ! a) then restore_scan items en limit (i - 1) h cnt
               else
                 let h' = set_Deleted False a h;
                     cnt' = cnt + 1
                 in if cnt' = limit then (Returned, h', cnt')
                    else restore_scan items en limit i h' cnt'
             else (Panicked, h, cnt)
         | None \<Rightarrow> (Fallthrough, h, cnt))
      else (Fallthrough, h, cnt))"
  by pat_completeness auto

text \<open>When the inner loop ends without the \<^verbatim>\<open>return\<close>, the source stores
  \<^verbatim>\<open>length+counter\<close> in the capacity map of the shard, \<^verbatim>\<open>counter\<close> being the number of
  descriptors restored so far in all shards.\<close>

fun RestoreByKey_shards ::
  "nat list \<Rightarrow> string \<Rightarrow> string \<Rightarrow> int \<Rightarrow> ConcurrentMap \<Rightarrow> int
     \<Rightarrow> (error + int) \<times> ConcurrentMap" where
  "RestoreByKey_shards [] key v limit m cnt = (Inr cnt, m)"
| "RestoreByKey_shards (n # ns) key v limit m cnt =
     (if n < length (Shared m) then
        (let shard = Shared m ! n;
             kv = key @ '':'' @ v;
             en = '':'' @ kv;
             len = GetCapacityKey shard kv
         in case restore_scan (Items shard) en limit (len - 1) (heap m) cnt of
              (Fallthrough, h, cnt') \<Rightarrow>
                RestoreByKey_shards ns key v limit
                  (m\<lparr>Shared := list_update (Shared m) n (SetCapacityKey shard kv (len + cnt')),
                     heap := h\<rparr>) cnt'
            | (Returned, h, cnt') \<Rightarrow> (Inr limit, m\<lparr>heap := h\<rparr>)
            | (Panicked, h, cnt') \<Rightarrow> (Inl Panic, m\<lparr>heap := h\<rparr>))
      else (Inl Panic, m))"

definition RestoreByKey ::
  "string \<Rightarrow> string \<Rightarrow> int \<Rightarrow> ConcurrentMap \<Rightarrow> (error + int) \<times> ConcurrentMap" where
  "RestoreByKey key v limit m = RestoreByKey_shards [0..<nat SHARD_COUNT] key v limit m 0"

text \<open>The inner loop of \<^verbatim>\<open>FindByKey\<close> and of \<^verbatim>\<open>FindByKeyInShard\<close>, a \<^verbatim>\<open>for\<close> without
  condition and without post statement: the \<^verbatim>\<open>continue\<close> on a deleted descriptor starts the
  next iteration with the same \<open>i\<close>.  The loop need not end, so the result is optional,
  \<open>None\<close> standing for a loop that runs forever.\<close>

partial_function (option) find_scan ::
  "ShardOffset list \<Rightarrow> ConcurrentMapShared \<Rightarrow> string \<Rightarrow> int \<Rightarrow> int \<Rightarrow> byte list list
     \<Rightarrow> (exit \<times> (error + byte list list)) option" where
  "find_scan h shard kv limit i results =
     (case fmlookup (Items shard) (Itoa i @ kv) of
        Some a \<Rightarrow>
          if a < length h then
            if Deleted (h ! a) then find_scan h shard kv limit i results
            else
              (case ReadAtOffset shard (h ! a) of
                 (data, Some e) \<Rightarrow> Some (Returned, Inl e)
               | (data, None) \<Rightarrow>
                   let results' = results @ [data]
                   in if int (length results') = limit then Some (Returned, Inr results')
                      else find_scan h shard kv limit (i + 1) results')
          else Some (Panicked, Inl Panic)
      | None \<Rightarrow> Some (Fallthrough, Inr results))"

text \<open>\<^verbatim>\<open>make([][]byte, 0, limit)\<close> panics on a negative \<open>limit\<close>.\<close>

definition FindByKeyInShard ::
  "ConcurrentMap \<Rightarrow> nat \<Rightarrow> string \<Rightarrow> string \<Rightarrow> int \<Rightarrow> (error + byte list list) option" where
  "FindByKeyInShard m si key v limit =
     (if si < length (Shared m) \<and> 0 \<le> limit then
        map_option snd
          (find_scan (heap m) (Shared m ! si) ('':'' @ key @ '':'' @ v) limit 0 [])
      else Some (Inl Panic))"

fun FindByKey_shards ::
  "nat list \<Rightarrow> ConcurrentMap \<Rightarrow> string \<Rightarrow> int \<Rightarrow> byte list list
     \<Rightarrow> (error + byte list list) option" where
  "FindByKey_shards [] m kv limit results = Some (Inr results)"
| "FindByKey_shards (n # ns) m kv limit results =
     (if n < length (Shared m) then
        (case find_scan (heap m) (Shared m ! n) kv limit 0 results of
           None \<Rightarrow> None
         | Some (Fallthrough, Inr results') \<Rightarrow> FindByKey_shards ns m kv limit results'
         | Some (_, r) \<Rightarrow> Some r)
      else Some (Inl Panic))"

definition FindByKey ::
  "ConcurrentMap \<Rightarrow> string \<Rightarrow> string \<Rightarrow> int \<Rightarrow> (error + byte list list) option" where
  "FindByKey m key v limit =
     (if limit < 0 then Some (Inl Panic)
      else FindByKey_shards [0..<nat SHARD_COUNT] m ('':'' @ key @ '':'' @ v) limit [])"

subsection \<open>\<^verbatim>\<open>Set\<close>\<close>

text \<open>What \<^verbatim>\<open>Set\<close> takes from outside the engine: the identifier \<^verbatim>\<open>xid.New().String()\<close>
  returns, the codec \<^verbatim>\<open>EncodeGob\<close> (applied to the element, the pair of the identifier and
  the value), whether \<^verbatim>\<open>Seek\<close> fails, and how many bytes \<^verbatim>\<open>Write\<close> gets written (it
  returns an error exactly when that is less than it was given).\<close>

record 'v world =
  xid_New :: string
  EncodeGob :: "string \<times> 'v \<Rightarrow> error + byte list"
  seek_fails :: bool
  write_accepts :: nat

text \<open>The search for the first free ordinal of a regular key, from the capacity on.\<close>

function next_index :: "(string, addr) fmap \<Rightarrow> string \<Rightarrow> int \<Rightarrow> int" where
  "next_index items fullKey index =
     (if fmlookup items (Itoa index @ '':'' @ fullKey) \<noteq> None
      then next_index items fullKey (index + 1) else index)"
  by pat_completeness auto

text \<open>The loop over the index descriptors.  \<open>a\<close> is the address of the offset of the new
  record, \<open>pId\<close> what \<^verbatim>\<open>&shard.Id\<close> points to.  The shard and the map of destinations are
  returned as they are when the loop is left, also by the \<^verbatim>\<open>return\<close> of a duplicate.\<close>

fun install_indexes ::
  "FullDataIndex list \<Rightarrow> addr \<Rightarrow> int \<Rightarrow> ConcurrentMapShared \<Rightarrow> (string, int) fmap
     \<Rightarrow> error option \<times> ConcurrentMapShared \<times> (string, int) fmap" where
  "install_indexes [] a pId shard destMap = (None, shard, destMap)"
| "install_indexes (ix # ixs) a pId shard destMap =
     (let fullKey = Field ix @ '':'' @ Data ix in
      if Unique ix then
        if fmlookup (Items shard) fullKey \<noteq> None then (Some DuplicateKey, shard, destMap)
        else install_indexes ixs a pId
               (shard\<lparr>Items := fmupd fullKey a (Items shard)\<rparr>) (fmupd fullKey pId destMap)
      else
        let index = next_index (Items shard) fullKey (GetCapacityKey shard fullKey);
            lastAvailable = Itoa index @ '':'' @ fullKey
        in install_indexes ixs a pId
             (SetCapacityKey (shard\<lparr>Items := fmupd lastAvailable a (Items shard)\<rparr>) fullKey index)
             (fmupd lastAvailable pId destMap))"

definition Set ::
  "'v world \<Rightarrow> FullDataIndex list \<Rightarrow> 'v \<Rightarrow> ConcurrentMap
     \<Rightarrow> (error + (string, int) fmap) \<times> ConcurrentMap" where
  "Set w indexData v m =
     (let idStr = xid_New w in
      case EncodeGob w (idStr, v) of
        Inl err \<Rightarrow> (Inl err, m)
      | Inr encodedData \<Rightarrow>
          (case GetNextShard m of
             (Inl err, m1) \<Rightarrow> (Inl err, m1)
           | (Inr si, m1) \<Rightarrow>
               let shard = Shared m1 ! si in
               if seek_fails w then (Inl IoError, m1)
               else
                 let ret = int (length (file_shard shard));
                     n = min (write_accepts w) (length encodedData);
                     shard1 = shard\<lparr>file_shard := file_shard shard @ take n encodedData\<rparr>
                 in
                 if n < length encodedData
                 then (Inl IoError, m1\<lparr>Shared := list_update (Shared m1) si shard1\<rparr>)
                 else
                   let a = length (heap m1);
                       h = heap m1 @ [\<lparr>Start = ret, Length = int n, Deleted = False\<rparr>];
                       pId = Id_shard shard1
                   in (case install_indexes indexData a pId shard1 fmempty of
                         (Some err, shard2, destMap) \<Rightarrow>
                           (Inl err, m1\<lparr>Shared := list_update (Shared m1) si shard2, heap := h\<rparr>)
                       | (None, shard2, destMap) \<Rightarrow>
                           let idKey = ''id:'' @ idStr;
                               shard3 = shard2\<lparr>Items := fmupd idKey a (Items shard2)\<rparr>
                           in (Inr (fmupd idKey pId destMap),
                               m1\<lparr>Shared := list_update (Shared m1) si shard3,
                                  heap := h\<rparr>))))"

subsection \<open>Lookups by hash and the count\<close>

text \<open>\<^verbatim>\<open>Get\<close> returns the pointer stored under the key (\<open>None\<close> for \<^verbatim>\<open>nil\<close>) and whether
  the key is there.\<close>

definition Get :: "ConcurrentMap \<Rightarrow> string \<Rightarrow> error + (addr option \<times> bool)" where
  "Get m key =
     (case GetShard m key of
        Inl err \<Rightarrow> Inl err
      | Inr si \<Rightarrow>
          let val = fmlookup (Items (Shared m ! si)) key in Inr (val, val \<noteq> None))"

definition Has :: "ConcurrentMap \<Rightarrow> string \<Rightarrow> error + bool" where
  "Has m key =
     (case GetShard m key of
        Inl err \<Rightarrow> Inl err
      | Inr si \<Rightarrow> Inr (fmlookup (Items (Shared m ! si)) key \<noteq> None))"

fun Count_shards :: "nat list \<Rightarrow> ConcurrentMap \<Rightarrow> int \<Rightarrow> error + int" where
  "Count_shards [] m count = Inr count"
| "Count_shards (i # is) m count =
     (if i < length (Shared m)
      then Count_shards is m (count + int (fcard (fmdom (Items (Shared m ! i)))))
      else Inl Panic)"

definition Count :: "ConcurrentMap \<Rightarrow> error + int" where
  "Count m = Count_shards [0..<nat SHARD_COUNT] m 0"

definition IsEmpty :: "ConcurrentMap \<Rightarrow> error + bool" where
  "IsEmpty m = (case Count m of Inl err \<Rightarrow> Inl err | Inr c \<Rightarrow> Inr (c = 0))"

subsection \<open>Measures for the loops\<close>

text \<open>\<open>live_at\<close> is 1 when the descriptor at ordinal \<open>i\<close> has its flag equal to \<open>b\<close>:
  the second visit of an ordinal finds it 0.  \<open>Atoi\<close> reads a decimal numeral back, and
  \<open>taken_from\<close> is the set of the ordinals from \<open>index\<close> on whose key is in the index.\<close>

definition live_at :: "(string, addr) fmap \<Rightarrow> string \<Rightarrow> ShardOffset list \<Rightarrow> bool \<Rightarrow> int \<Rightarrow> nat" where
  "live_at items en h b i =
     (case fmlookup items (Itoa i @ en) of
        Some a \<Rightarrow> if a < length h \<and> Deleted (h ! a) = b then 1 else 0
      | None \<Rightarrow> 0)"

definition digits_value :: "string \<Rightarrow> nat" where
  "digits_value s = foldl (\<lambda>acc c. 10 * acc + (of_char c - 48)) 0 s"

definition Atoi :: "string \<Rightarrow> int" where
  "Atoi s = (case s of [] \<Rightarrow> 0
             | c # cs \<Rightarrow> if c = CHR ''-'' then - int (digits_value cs) else int (digits_value s))"

definition taken_from :: "(string, addr) fmap \<Rightarrow> string \<Rightarrow> int \<Rightarrow> int set" where
  "taken_from items fullKey index =
     {j. index \<le> j \<and> fmlookup items (Itoa j @ '':'' @ fullKey) \<noteq> None}"

subsection \<open>A new engine, and the hash as the specification words it\<close>

text \<open>The engine \<^verbatim>\<open>NewConcurrentMap\<close> builds over 32 empty files.\<close>

definition fresh :: ConcurrentMap where
  "fresh = \<lparr>Shared = map (\<lambda>i. NewConcurrentMapShared [] (int i) []) [0..<32],
            counter = 0, SyncDestination = [], heap = []\<rparr>"

text \<open>FNV-1a as the specification describes it: for each byte, XOR the byte into the
  hash, then multiply by the prime, in 32-bit arithmetic.\<close>

fun fnv1a_spec_loop :: "string \<Rightarrow> 32 word \<Rightarrow> 32 word" where
  "fnv1a_spec_loop [] hash = hash"
| "fnv1a_spec_loop (c # key) hash = fnv1a_spec_loop key ((hash XOR of_char c) * 16777619)"

definition fnv1a_spec :: "string \<Rightarrow> 32 word" where
  "fnv1a_spec key = fnv1a_spec_loop key 2166136261"

subsection \<open>A world for the examples\<close>

text \<open>An identifier, a codec that never fails, a file that takes every write; and an index
  descriptor for a unique key.\<close>

definition world0 :: "nat world" where
  "world0 = \<lparr>xid_New = ''r1'', EncodeGob = (\<lambda>(i, x). Inr [1, 2, of_nat x]),
             seek_fails = False, write_accepts = 100\<rparr>"

definition by_email :: FullDataIndex where
  "by_email = \<lparr>Field = ''email'', Data = ''a@x'', Unique = True\<rparr>"

text \<open>The engine after one \<^verbatim>\<open>Set\<close> of a record with the unique key \<open>email:a@x\<close> on a new
  engine: the round-robin counter goes from 0 to 1 and the record lands in shard 1.\<close>

definition after_email :: ConcurrentMap where
  "after_email =
     fresh\<lparr>Shared := list_update (Shared fresh) 1
              \<lparr>Id_shard = 1,
               Items = fmupd ''id:r1'' 0 (fmupd ''email:a@x'' 0 fmempty),
               capacity = fmempty,
               file_shard = [1, 2, 7]\<rparr>,
           counter := 1,
           heap := [\<lparr>Start = 0, Length = 3, Deleted = False\<rparr>]\<rparr>"

text \<open>A descriptor of a regular key, and shard 1 of \<open>after_email\<close> once a second record
  with that regular key has been written to it.\<close>

definition by_tag :: FullDataIndex where
  "by_tag = \<lparr>Field = ''tag'', Data = ''red'', Unique = False\<rparr>"

definition tagged_shard :: ConcurrentMapShared where
  "tagged_shard =
     \<lparr>Id_shard = 1,
      Items = fmupd ''0:tag:red'' 1 (fmupd ''id:r1'' 0 (fmupd ''email:a@x'' 0 fmempty)),
      capacity = fmupd ''tag:red'' 0 fmempty,
      file_shard = [1, 2, 7, 1, 2, 9]\<rparr>"

subsection \<open>The flag of a record, seen through one of its keys\<close>

text \<open>\<open>Deleted_via m si k\<close> follows the pointer stored under the key \<open>k\<close> of shard \<open>si\<close> and
  reads the \<^verbatim>\<open>Deleted\<close> flag of the descriptor it points to.\<close>

definition Deleted_via :: "ConcurrentMap \<Rightarrow> nat \<Rightarrow> string \<Rightarrow> bool option" where
  "Deleted_via m si k =
     (case fmlookup (Items (Shared m ! si)) k of
        None \<Rightarrow> None
      | Some a \<Rightarrow> if a < length (heap m) then Some (Deleted (heap m ! a)) else None)"

text \<open>The engine after one \<^verbatim>\<open>Set\<close> of a record with the regular key \<open>tag:red\<close> and the
  unique key \<open>email:a@x\<close> on a new engine.\<close>

definition after_both :: ConcurrentMap where
  "after_both =
     fresh\<lparr>Shared := list_update (Shared fresh) 1
              \<lparr>Id_shard = 1,
               Items = fmupd ''id:r1'' 0 (fmupd ''email:a@x'' 0 (fmupd ''0:tag:red'' 0 fmempty)),
               capacity = fmupd ''tag:red'' 0 fmempty,
               file_shard = [1, 2, 7]\<rparr>,
           counter := 1,
           heap := [\<lparr>Start = 0, Length = 3, Deleted = False\<rparr>]\<rparr>"

text \<open>\<open>after_both\<close> once the record has been deleted by its unique key.\<close>

definition after_both_deleted :: ConcurrentMap where
  "after_both_deleted = after_both\<lparr>heap := [\<lparr>Start = 0, Length = 3, Deleted = True\<rparr>]\<rparr>"

subsection \<open>Two records under one regular key\<close>

text \<open>Two more worlds, which differ from \<open>world0\<close> in the identifier only, and the engines
  of the following run: \<^verbatim>\<open>Set\<close> of a record with the regular key \<open>tag:red\<close> on a new engine
  (\<open>one_tag\<close>), \<^verbatim>\<open>SetCounterIndex(0)\<close>, a second such \<^verbatim>\<open>Set\<close>, which lands in shard 1 again
  (\<open>two_tags\<close>), \<^verbatim>\<open>DeleteByKey("tag", "red", 1)\<close> (\<open>two_tags_deleted\<close>), and
  \<^verbatim>\<open>RestoreByKey("tag", "red", 5)\<close> (\<open>restored\<close>; \<open>restore_mid\<close> is the engine when that call
  has gone through shards 0 and 1).\<close>

definition world1 :: "nat world" where
  "world1 = world0\<lparr>xid_New := ''r2''\<rparr>"

definition world2 :: "nat world" where
  "world2 = world0\<lparr>xid_New := ''r3''\<rparr>"

definition one_tag :: ConcurrentMap where
  "one_tag =
     fresh\<lparr>Shared := list_update (Shared fresh) 1
              \<lparr>Id_shard = 1,
               Items = fmupd ''id:r1'' 0 (fmupd ''0:tag:red'' 0 fmempty),
               capacity = fmupd ''tag:red'' 0 fmempty,
               file_shard = [1, 2, 7]\<rparr>,
           counter := 1,
           heap := [\<lparr>Start = 0, Length = 3, Deleted = False\<rparr>]\<rparr>"

definition two_tags_shard :: ConcurrentMapShared where
  "two_tags_shard =
     \<lparr>Id_shard = 1,
      Items = fmupd ''id:r2'' 1 (fmupd ''1:tag:red'' 1
                (fmupd ''id:r1'' 0 (fmupd ''0:tag:red'' 0 fmempty))),
      capacity = fmupd ''tag:red'' 1 (fmupd ''tag:red'' 0 fmempty),
      file_shard = [1, 2, 7, 1, 2, 8]\<rparr>"

definition two_tags :: ConcurrentMap where
  "two_tags =
     fresh\<lparr>Shared := list_update (Shared fresh) 1 two_tags_shard,
           counter := 1,
           heap := [\<lparr>Start = 0, Length = 3, Deleted = False\<rparr>,
                    \<lparr>Start = 3, Length = 3, Deleted = False\<rparr>]\<rparr>"

definition two_tags_deleted :: ConcurrentMap where
  "two_tags_deleted =
     two_tags\<lparr>heap := [\<lparr>Start = 0, Length = 3, Deleted = True\<rparr>,
                       \<lparr>Start = 3, Length = 3, Deleted = False\<rparr>]\<rparr>"

definition restore_mid :: ConcurrentMap where
  "restore_mid =
     two_tags\<lparr>Shared :=
       list_update
         (list_update (Shared two_tags) 0
            (SetCapacityKey (NewConcurrentMapShared [] 0 []) ''tag:red'' 0))
         1 (SetCapacityKey two_tags_shard ''tag:red'' 2)\<rparr>"

definition restored :: ConcurrentMap where
  "restored = snd (RestoreByKey ''tag'' ''red'' 5 two_tags_deleted)"

subsection \<open>The density of the ordinals, as the specification words it\<close>

text \<open>The regular keys of a fingerprint \<open>f\<close> in a shard are the keys \<open>n:f\<close> of its offset
  index.  The specification asks that they be exactly \<open>0:f\<close>, ..., \<open>(k-1):f\<close> for
  \<open>k = capacity[f]\<close>.\<close>

definition ordinal_keys :: "ConcurrentMapShared \<Rightarrow> string \<Rightarrow> string set" where
  "ordinal_keys shard f = {k \<in> fmdom' (Items shard). \<exists>n. k = Itoa n @ '':'' @ f}"

definition density_spec :: "ConcurrentMapShared \<Rightarrow> string \<Rightarrow> bool" where
  "density_spec shard f =
     (ordinal_keys shard f = (\<lambda>n. Itoa n @ '':'' @ f) ` {0 ..< GetCapacityKey shard f})"

section \<open>Termination of the loops\<close>

lemma live_at_set_Deleted:
  "fmlookup items (Itoa i @ en) = Some a \<Longrightarrow> a < length h \<Longrightarrow>
   live_at items en (set_Deleted b a h) (\<not> b) i = 0"
  by (simp add: live_at_def set_Deleted_def)

lemma live_at_le: "live_at items en h b i \<le> 1"
  by (simp add: live_at_def split: option.splits)

termination delete_scan
proof (relation "measure (\<lambda>(items, en, limit, i, h, cnt, dests).
                    2 * nat (i + 1) + live_at items en h False i)", goal_cases)
  case 1
  show ?case by simp
next
  case (2 items en limit i h cnt dests tempKey a)
  have "live_at items en h False (i - 1) \<le> 1" by (rule live_at_le)
  with 2 show ?case by simp
next
  case (3 items en limit i h cnt dests tempKey a h' dests' cnt')
  then have "live_at items en h' False i = 0"
    using live_at_set_Deleted [of items i en a h True] by simp
  moreover from 3 have "live_at items en h False i = 1"
    by (simp add: live_at_def)
  ultimately show ?case by simp
qed

termination restore_scan
proof (relation "measure (\<lambda>(items, en, limit, i, h, cnt).
                    2 * nat (i + 1) + live_at items en h True i)", goal_cases)
  case 1
  show ?case by simp
next
  case (2 items en limit i h cnt tempKey a)
  have "live_at items en h True (i - 1) \<le> 1" by (rule live_at_le)
  with 2 show ?case by simp
next
  case (3 items en limit i h cnt tempKey a h' cnt')
  then have "live_at items en h' True i = 0"
    using live_at_set_Deleted [of items i en a h False] by simp
  moreover from 3 have "live_at items en h True i = 1"
    by (simp add: live_at_def)
  ultimately show ?case by simp
qed

lemma of_char_digit_char: "d < 10 \<Longrightarrow> (of_char (digit_char d) :: nat) = 48 + d"
proof -
  assume "d < 10"
  then have "d \<in> {0, 1, 2, 3, 4, 5, 6, 7, 8, 9}" by auto
  then show ?thesis by (auto simp: digit_char_def)
qed

lemma digits_value_snoc:
  "digits_value (s @ [c]) = 10 * digits_value s + (of_char c - 48)"
  by (simp add: digits_value_def)

lemma digits_value_digits: "digits_value (digits n) = n"
proof (induction n rule: digits.induct)
  case (1 n)
  show ?case
  proof (cases "n < 10")
    case True
    then show ?thesis
      by (subst digits.simps) (simp add: digits_value_def of_char_digit_char)
  next
    case False
    have "n mod 10 < 10" by simp
    then have "(of_char (digit_char (n mod 10)) :: nat) = 48 + n mod 10"
      by (rule of_char_digit_char)
    with False 1 show ?thesis
      by (subst digits.simps) (simp add: digits_value_snoc)
  qed
qed

lemma digits_head: "\<exists>d cs. d < 10 \<and> digits n = digit_char d # cs"
proof (induction n rule: digits.induct)
  case (1 n)
  show ?case
  proof (cases "n < 10")
    case True
    then show ?thesis by (subst digits.simps) auto
  next
    case False
    with 1 obtain d cs where "d < 10" "digits (n div 10) = digit_char d # cs" by blast
    with False show ?thesis by (subst digits.simps) auto
  qed
qed

lemma digit_char_not_minus: "d < 10 \<Longrightarrow> digit_char d \<noteq> CHR ''-''"
proof
  assume "d < 10" and "digit_char d = CHR ''-''"
  then have "(of_char (digit_char d) :: nat) = of_char (CHR ''-'')" by simp
  with \<open>d < 10\<close> show False by (simp add: of_char_digit_char)
qed

lemma Atoi_Itoa: "Atoi (Itoa i) = i"
proof (cases "i < 0")
  case True
  then show ?thesis by (simp add: Atoi_def Itoa_def digits_value_digits)
next
  case False
  obtain d cs where d: "d < 10" "digits (nat i) = digit_char d # cs"
    using digits_head by blast
  have "digits_value (digit_char d # cs) = nat i"
    using digits_value_digits [of "nat i"] d by simp
  with False d show ?thesis
    by (simp add: Atoi_def Itoa_def digit_char_not_minus)
qed

lemma Itoa_inject: "Itoa i = Itoa j \<Longrightarrow> i = j"
  by (metis Atoi_Itoa)

lemma finite_taken_from: "finite (taken_from items fullKey index)"
proof -
  let ?f = "\<lambda>j. Itoa j @ '':'' @ fullKey"
  have "inj_on ?f (taken_from items fullKey index)"
    by (rule inj_onI) (simp add: Itoa_inject)
  moreover have "?f ` taken_from items fullKey index \<subseteq> fmdom' items"
    by (auto simp: taken_from_def intro: fmdom'I)
  then have "finite (?f ` taken_from items fullKey index)"
    by (rule finite_subset) simp
  ultimately show ?thesis by (rule finite_imageD [rotated])
qed

termination next_index
proof (relation "measure (\<lambda>(items, fullKey, index). card (taken_from items fullKey index))",
    goal_cases)
  case 1
  show ?case by simp
next
  case (2 items fullKey index)
  then have "index \<in> taken_from items fullKey index"
    and "index \<notin> taken_from items fullKey (index + 1)"
    by (simp_all add: taken_from_def)
  moreover have "taken_from items fullKey (index + 1) \<subseteq> taken_from items fullKey index"
    by (auto simp: taken_from_def)
  ultimately have "taken_from items fullKey (index + 1) \<subset> taken_from items fullKey index"
    by blast
  then show ?case
    by (simp add: psubset_card_mono finite_taken_from)
qed

declare delete_scan.simps [simp del] restore_scan.simps [simp del] next_index.simps [simp del]

section \<open>The engine at work\<close>

lemma fresh_New: "NewConcurrentMap [] (replicate 32 []) = Inr fresh"
  by (simp add: NewConcurrentMap_def fresh_def SHARD_COUNT_def)

lemma length_fresh: "length (Shared fresh) = 32"
  by (simp add: fresh_def)

section \<open>Routing by hash (C4)\<close>

lemma fnv32_loop_foldl:
  "fnv32_loop key hash = foldl (\<lambda>hash c. (hash * 16777619) XOR of_char c) hash key"
  by (induction key arbitrary: hash) simp_all

text \<open>C4, as the code has it: \<^verbatim>\<open>GetShard\<close> selects the shard with index
  \<open>hash(key) mod 32\<close>, where the hash starts from the seed 2166136261 and, for each byte
  of the key in order, first multiplies by the prime 16777619 and then XORs the byte in,
  in 32-bit modular arithmetic (FNV-1, not FNV-1a).\<close>

theorem GetShard_fnv1:
  assumes "nat SHARD_COUNT \<le> length (Shared m)"
  shows "GetShard m key =
           Inr (unat (foldl (\<lambda>hash c. (hash * 16777619) XOR of_char c)
                        (2166136261 :: 32 word) key) mod 32)"
proof -
  have "unat (fnv32 key) mod 32 < 32" by simp
  with assms show ?thesis
    by (simp add: GetShard_def fnv32_def fnv32_loop_foldl SHARD_COUNT_def Let_def)
qed

theorem GetShard_fnv1_witness:
  "nat SHARD_COUNT \<le> length (Shared fresh) \<and> GetShard fresh ''email:a@x'' = Inr 12"
proof -
  have h: "nat SHARD_COUNT \<le> length (Shared fresh)"
    by (simp add: SHARD_COUNT_def length_fresh)
  show ?thesis
    using h GetShard_fnv1 [OF h, of "''email:a@x''"] by simp
qed

text \<open>C4 as stated fails: with the FNV-1a hash of the specification the key \<open>a\<close> would
  be routed to shard 12, and \<^verbatim>\<open>GetShard\<close> routes it to shard 30.\<close>

theorem GetShard_fnv1a_counterexample:
  "GetShard fresh ''a'' = Inr 30 \<and> unat (fnv1a_spec ''a'') mod nat SHARD_COUNT = 12"
  by (simp add: GetShard_def fnv32_def fnv1a_spec_def SHARD_COUNT_def length_fresh)

section \<open>Facts about \<^verbatim>\<open>Set\<close>\<close>

lemma GetNextShard_Inr:
  assumes "GetNextShard m = (Inr si, m1)"
  shows "si < length (Shared m)" and "si < 32"
    and "m1 = m\<lparr>counter := of_nat si\<rparr>"
    and "si = unat (if counter m + 1 \<ge> 32 then 0 else counter m + 1)"
proof -
  let ?c = "if counter m + 1 \<ge> 32 then 0 else counter m + 1"
  from assms have si: "si = unat ?c" and lt: "si < length (Shared m)"
    and m1: "m1 = m\<lparr>counter := ?c\<rparr>"
    by (auto simp: GetNextShard_def Let_def split: if_splits)
  show "si < length (Shared m)" by (rule lt)
  show "si = unat ?c" by (rule si)
  have "?c < 32" by (simp add: not_le)
  then have "unat ?c < unat (32 :: 64 word)" by (simp only: word_less_nat_alt)
  then show "si < 32" by (simp add: si)
  show "m1 = m\<lparr>counter := of_nat si\<rparr>" by (simp add: si m1)
qed

lemma Set_InrE:
  assumes "Set w indexData v m = (Inr destMap, m')"
  obtains si m1 encodedData shard2 dm where
    "EncodeGob w (xid_New w, v) = Inr encodedData"
    "GetNextShard m = (Inr si, m1)"
    "\<not> seek_fails w"
    "length encodedData \<le> write_accepts w"
    "install_indexes indexData (length (heap m)) (Id_shard (Shared m ! si))
       ((Shared m ! si)\<lparr>file_shard := file_shard (Shared m ! si) @ encodedData\<rparr>) fmempty
     = (None, shard2, dm)"
    "destMap = fmupd (''id:'' @ xid_New w) (Id_shard (Shared m ! si)) dm"
    "m' = m1\<lparr>Shared := list_update (Shared m) si
                  (shard2\<lparr>Items := fmupd (''id:'' @ xid_New w) (length (heap m)) (Items shard2)\<rparr>),
              heap := heap m @ [\<lparr>Start = int (length (file_shard (Shared m ! si))),
                                  Length = int (length encodedData), Deleted = False\<rparr>]\<rparr>"
proof -
  from assms obtain encodedData where enc: "EncodeGob w (xid_New w, v) = Inr encodedData"
    by (cases "EncodeGob w (xid_New w, v)") (auto simp: Set_def Let_def)
  from assms enc obtain si m1 where nxt: "GetNextShard m = (Inr si, m1)"
    by (cases "GetNextShard m"; cases "fst (GetNextShard m)") (auto simp: Set_def Let_def)
  have m1: "Shared m1 = Shared m" "heap m1 = heap m"
    using GetNextShard_Inr(3) [OF nxt] by simp_all
  from assms enc nxt have seek: "\<not> seek_fails w"
    by (auto simp: Set_def Let_def)
  from assms enc nxt seek have wr: "length encodedData \<le> write_accepts w"
    by (auto simp: Set_def Let_def split: if_splits)
  then have mn: "min (write_accepts w) (length encodedData) = length encodedData" by simp
  let ?sh = "(Shared m ! si)\<lparr>file_shard := file_shard (Shared m ! si) @ encodedData\<rparr>"
  obtain r shard2 dm where inst:
    "install_indexes indexData (length (heap m)) (Id_shard (Shared m ! si)) ?sh fmempty
     = (r, shard2, dm)"
    by (metis prod_cases3)
  from assms enc nxt seek wr mn m1 inst have r: "r = None"
    by (cases r) (auto simp: Set_def Let_def)
  from assms enc nxt seek wr mn m1 inst r
  have "destMap = fmupd (''id:'' @ xid_New w) (Id_shard (Shared m ! si)) dm"
    and "m' = m1\<lparr>Shared := list_update (Shared m) si
                  (shard2\<lparr>Items := fmupd (''id:'' @ xid_New w) (length (heap m)) (Items shard2)\<rparr>),
              heap := heap m @ [\<lparr>Start = int (length (file_shard (Shared m ! si))),
                                  Length = int (length encodedData), Deleted = False\<rparr>]\<rparr>"
    by (auto simp: Set_def Let_def)
  with enc nxt seek wr inst r show thesis
    using that by blast
qed

lemma SetCounterIndex_eq:
  "SetCounterIndex v m =
     (if uint v < SHARD_COUNT then (None, m\<lparr>counter := v\<rparr>) else (Some InvalidArgument, m))"
proof -
  have "(32 \<le> v) = (\<not> uint v < 32)"
    by (simp add: word_le_def not_less)
  then show ?thesis
    by (simp add: SetCounterIndex_def SHARD_COUNT_def)
qed

lemma Shared_fresh_nth:
  "i < 32 \<Longrightarrow> Shared fresh ! i = NewConcurrentMapShared [] (int i) []"
  by (simp add: fresh_def)

lemma next_index_free:
  "fmlookup items (Itoa (next_index items fullKey index) @ '':'' @ fullKey) = None"
  by (induction items fullKey index rule: next_index.induct)
     (subst next_index.simps, simp)

lemma next_index_ge: "index \<le> next_index items fullKey index"
proof (induction items fullKey index rule: next_index.induct)
  case (1 items fullKey index)
  show ?case
  proof (cases "fmlookup items (Itoa index @ '':'' @ fullKey) = None")
    case True
    then show ?thesis by (simp add: next_index.simps [of items fullKey index])
  next
    case False
    with 1 have "index + 1 \<le> next_index items fullKey (index + 1)" by simp
    with False show ?thesis by (simp add: next_index.simps [of items fullKey index])
  qed
qed

lemma install_indexes_frame:
  "install_indexes ixs a pId shard dm = (r, shard', dm') \<Longrightarrow>
   Id_shard shard' = Id_shard shard \<and> file_shard shard' = file_shard shard"
  by (induction ixs a pId shard dm rule: install_indexes.induct)
     (auto simp: Let_def SetCapacityKey_def split: if_splits)

lemma install_indexes_keeps:
  "install_indexes ixs a pId shard dm = (r, shard', dm') \<Longrightarrow>
   fmlookup (Items shard) k = Some b \<Longrightarrow> fmlookup (Items shard') k = Some b"
proof (induction ixs a pId shard dm rule: install_indexes.induct)
  case (1 a pId shard destMap)
  then show ?case by simp
next
  case (2 ix ixs a pId shard destMap)
  let ?fk = "Field ix @ '':'' @ Data ix"
  show ?case
  proof (cases "Unique ix")
    case True
    show ?thesis
    proof (cases "fmlookup (Items shard) ?fk = None")
      case present: False
      with True "2.prems" show ?thesis by (auto simp: Let_def)
    next
      case absent: True
      with "2.prems" have "?fk \<noteq> k" by auto
      with True absent 2 show ?thesis
        by (auto simp: Let_def)
    qed
  next
    case False
    let ?i = "next_index (Items shard) ?fk (GetCapacityKey shard ?fk)"
    have "fmlookup (Items shard) (Itoa ?i @ '':'' @ ?fk) = None"
      by (rule next_index_free)
    with "2.prems" have "Itoa ?i @ '':'' @ ?fk \<noteq> k" by auto
    with False 2 show ?thesis
      by (auto simp: Let_def SetCapacityKey_def)
  qed
qed

lemma install_indexes_same:
  "install_indexes ixs a pId shard dm = (r, shard', dm') \<Longrightarrow>
   (\<And>k p. fmlookup dm k = Some p \<Longrightarrow> p = pId \<and> fmlookup (Items shard) k = Some a) \<Longrightarrow>
   fmlookup dm' k = Some p \<Longrightarrow> p = pId \<and> fmlookup (Items shard') k = Some a"
proof (induction ixs a pId shard dm arbitrary: k p rule: install_indexes.induct)
  case (1 a pId shard destMap)
  then show ?case by simp
next
  case (2 ix ixs a pId shard destMap)
  let ?fk = "Field ix @ '':'' @ Data ix"
  show ?case
  proof (cases "Unique ix")
    case True
    show ?thesis
    proof (cases "fmlookup (Items shard) ?fk = None")
      case present: False
      with True "2.prems" show ?thesis by (auto simp: Let_def)
    next
      case absent: True
      let ?sh = "shard\<lparr>Items := fmupd ?fk a (Items shard)\<rparr>"
      let ?dm = "fmupd ?fk pId destMap"
      from True absent "2.prems"(1)
      have run: "install_indexes ixs a pId ?sh ?dm = (r, shard', dm')"
        by (simp add: Let_def)
      have inv: "\<And>k p. fmlookup ?dm k = Some p \<Longrightarrow> p = pId \<and> fmlookup (Items ?sh) k = Some a"
        using "2.prems"(2) by (auto split: if_splits)
      show ?thesis
        using "2.IH"(1) [OF refl True _ run inv "2.prems"(3)] absent by simp
    qed
  next
    case False
    let ?i = "next_index (Items shard) ?fk (GetCapacityKey shard ?fk)"
    let ?la = "Itoa ?i @ '':'' @ ?fk"
    let ?sh = "SetCapacityKey (shard\<lparr>Items := fmupd ?la a (Items shard)\<rparr>) ?fk ?i"
    let ?dm = "fmupd ?la pId destMap"
    from False "2.prems"(1)
    have run: "install_indexes ixs a pId ?sh ?dm = (r, shard', dm')"
      by (simp add: Let_def)
    have inv: "\<And>k p. fmlookup ?dm k = Some p \<Longrightarrow> p = pId \<and> fmlookup (Items ?sh) k = Some a"
      using "2.prems"(2) by (auto simp: SetCapacityKey_def split: if_splits)
    show ?thesis
      using "2.IH"(2) [OF refl False refl refl run inv "2.prems"(3)] by simp
  qed
qed

lemma xid_New_world0: "xid_New world0 = ''r1''"
  by (simp add: world0_def)

lemma heap_fresh: "heap fresh = []"
  by (simp add: fresh_def)

section \<open>The round-robin counter (C7)\<close>

lemma GetNextShard_after_5:
  "GetNextShard (m\<lparr>counter := 5\<rparr>) = (Inr si, m1) \<Longrightarrow> si = 6"
  by (auto simp: GetNextShard_def Let_def split: if_splits)

lemma Set_world0_after_5:
  "fst (Set world0 [] 7 (snd (SetCounterIndex 5 fresh))) = Inr (fmupd ''id:r1'' 6 fmempty)"
  by (simp add: Set_def world0_def SetCounterIndex_eq SHARD_COUNT_def GetNextShard_def
      length_fresh Shared_fresh_nth NewConcurrentMapShared_def Let_def)

text \<open>C7: \<^verbatim>\<open>SetCounterIndex\<close> answers \<open>InvalidArgument\<close> exactly when the value is outside
  \<open>[0, SHARD_COUNT)\<close> and otherwise stores it in the counter; \<^verbatim>\<open>SetCounterIndex(32)\<close>
  fails; and a \<^verbatim>\<open>Set\<close> that succeeds after \<^verbatim>\<open>SetCounterIndex(5)\<close> leaves the counter at 6 and
  puts all its entries, the identity entry among them, into shard 6 and no other shard,
  every key of the returned map being given the id of shard 6.\<close>

theorem SetCounterIndex_then_Set:
  "SetCounterIndex v m =
     (if uint v < SHARD_COUNT then (None, m\<lparr>counter := v\<rparr>) else (Some InvalidArgument, m)) \<and>
   SetCounterIndex 32 m = (Some InvalidArgument, m) \<and>
   (Set w indexData x (snd (SetCounterIndex 5 m)) = (Inr destMap, m') \<longrightarrow>
      counter m' = 6 \<and> 6 < length (Shared m) \<and>
      fmlookup (Items (Shared m' ! 6)) (''id:'' @ xid_New w) = Some (length (heap m)) \<and>
      (\<forall>k p. fmlookup destMap k = Some p \<longrightarrow>
         p = Id_shard (Shared m ! 6) \<and>
         fmlookup (Items (Shared m' ! 6)) k = Some (length (heap m))) \<and>
      (\<forall>j. j \<noteq> 6 \<longrightarrow> Shared m' ! j = Shared m ! j))"
proof (intro conjI impI)
  show "SetCounterIndex v m =
     (if uint v < SHARD_COUNT then (None, m\<lparr>counter := v\<rparr>) else (Some InvalidArgument, m))"
    by (rule SetCounterIndex_eq)
  show "SetCounterIndex 32 m = (Some InvalidArgument, m)"
    by (simp add: SetCounterIndex_eq SHARD_COUNT_def)
next
  let ?m5 = "m\<lparr>counter := 5\<rparr>"
  let ?a = "length (heap m)"
  let ?idKey = "''id:'' @ xid_New w"
  assume "Set w indexData x (snd (SetCounterIndex 5 m)) = (Inr destMap, m')"
  then have run: "Set w indexData x ?m5 = (Inr destMap, m')"
    by (simp add: SetCounterIndex_eq SHARD_COUNT_def)
  then obtain si m1 encodedData shard2 dm where
    nxt: "GetNextShard ?m5 = (Inr si, m1)"
    and inst: "install_indexes indexData ?a (Id_shard (Shared ?m5 ! si))
       ((Shared ?m5 ! si)\<lparr>file_shard := file_shard (Shared ?m5 ! si) @ encodedData\<rparr>) fmempty
     = (None, shard2, dm)"
    and dest: "destMap = fmupd ?idKey (Id_shard (Shared ?m5 ! si)) dm"
    and m': "m' = m1\<lparr>Shared := list_update (Shared ?m5) si
                  (shard2\<lparr>Items := fmupd ?idKey ?a (Items shard2)\<rparr>),
              heap := heap ?m5 @ [\<lparr>Start = int (length (file_shard (Shared ?m5 ! si))),
                                  Length = int (length encodedData), Deleted = False\<rparr>]\<rparr>"
    by (rule Set_InrE) simp
  have si: "si = 6" using nxt by (rule GetNextShard_after_5)
  have lt: "6 < length (Shared m)" using GetNextShard_Inr(1) [OF nxt] si by simp
  have m1: "m1 = ?m5\<lparr>counter := 6\<rparr>" using GetNextShard_Inr(3) [OF nxt] si by simp
  show "counter m' = 6" by (simp add: m' m1)
  show "6 < length (Shared m)" by (rule lt)
  show "fmlookup (Items (Shared m' ! 6)) ?idKey = Some ?a"
    using lt by (simp add: m' si)
  show "\<forall>j. j \<noteq> 6 \<longrightarrow> Shared m' ! j = Shared m ! j"
    by (simp add: m' si)
  show "\<forall>k p. fmlookup destMap k = Some p \<longrightarrow>
         p = Id_shard (Shared m ! 6) \<and> fmlookup (Items (Shared m' ! 6)) k = Some ?a"
  proof (intro allI impI)
    fix k p
    assume kp: "fmlookup destMap k = Some p"
    show "p = Id_shard (Shared m ! 6) \<and> fmlookup (Items (Shared m' ! 6)) k = Some ?a"
    proof (cases "k = ?idKey")
      case True
      with kp lt show ?thesis by (simp add: dest m' si)
    next
      case False
      with kp have "fmlookup dm k = Some p" by (simp add: dest)
      from install_indexes_same [OF inst _ this]
      have "p = Id_shard (Shared ?m5 ! si) \<and> fmlookup (Items shard2) k = Some ?a" by simp
      with False lt show ?thesis by (simp add: m' si)
    qed
  qed
qed

theorem SetCounterIndex_then_Set_witness:
  "uint (5 :: 64 word) < SHARD_COUNT \<and>
   fst (Set world0 [] 7 (snd (SetCounterIndex 5 fresh))) = Inr (fmupd ''id:r1'' 6 fmempty) \<and>
   counter (snd (Set world0 [] 7 (snd (SetCounterIndex 5 fresh)))) = 6 \<and>
   fmlookup (Items (Shared (snd (Set world0 [] 7 (snd (SetCounterIndex 5 fresh)))) ! 6))
     ''id:r1'' = Some 0"
proof -
  let ?m' = "snd (Set world0 [] 7 (snd (SetCounterIndex 5 fresh)))"
  have run: "Set world0 [] 7 (snd (SetCounterIndex 5 fresh)) = (Inr (fmupd ''id:r1'' 6 fmempty), ?m')"
    using Set_world0_after_5 by (metis prod.collapse)
  with SetCounterIndex_then_Set [of 5 fresh world0 "[]" 7 "fmupd ''id:r1'' 6 fmempty" ?m']
  have "counter ?m' = 6"
    and "fmlookup (Items (Shared ?m' ! 6)) (''id:'' @ xid_New world0) = Some (length (heap fresh))"
    by blast+
  moreover have "uint (5 :: 64 word) < SHARD_COUNT" by (simp add: SHARD_COUNT_def)
  moreover note Set_world0_after_5
  ultimately show ?thesis by (simp add: xid_New_world0 heap_fresh)
qed

section \<open>Round-robin placement against lookup by hash (C10)\<close>

lemma counter_fresh: "counter fresh = 0"
  by (simp add: fresh_def)

lemma Set_by_email:
  "Set world0 [by_email] 7 fresh =
     (Inr (fmupd ''id:r1'' 1 (fmupd ''email:a@x'' 1 fmempty)), after_email)"
  by (simp add: Set_def world0_def by_email_def GetNextShard_def after_email_def
      length_fresh Shared_fresh_nth heap_fresh counter_fresh NewConcurrentMapShared_def
      Let_def word_le_nat_alt)

lemma length_after_email: "length (Shared after_email) = 32"
  by (simp add: after_email_def length_fresh)

lemma Shared_after_email_1:
  "Items (Shared after_email ! Suc 0) = fmupd ''id:r1'' 0 (fmupd ''email:a@x'' 0 fmempty)"
  by (simp add: after_email_def length_fresh)

lemma Shared_after_email_other:
  "i < 32 \<Longrightarrow> i \<noteq> 1 \<Longrightarrow> Items (Shared after_email ! i) = fmempty"
  by (simp add: after_email_def Shared_fresh_nth NewConcurrentMapShared_def)

lemma GetShard_after_email: "GetShard after_email ''email:a@x'' = Inr 12"
  by (simp add: GetShard_def fnv32_def SHARD_COUNT_def length_after_email)

lemma GetShard_by_hash:
  "GetShard m key =
     (if unat (fnv32 key) mod 32 < length (Shared m)
      then Inr (unat (fnv32 key) mod 32) else Inl Panic)"
  by (simp add: GetShard_def SHARD_COUNT_def Let_def)

lemma Has_by_hash:
  "Has m key =
     (if unat (fnv32 key) mod 32 < length (Shared m)
      then Inr (fmlookup (Items (Shared m ! (unat (fnv32 key) mod 32))) key \<noteq> None)
      else Inl Panic)"
  by (simp add: Has_def GetShard_def SHARD_COUNT_def Let_def)

lemma Get_by_hash:
  "Get m key =
     (if unat (fnv32 key) mod 32 < length (Shared m)
      then Inr (fmlookup (Items (Shared m ! (unat (fnv32 key) mod 32))) key,
                fmlookup (Items (Shared m ! (unat (fnv32 key) mod 32))) key \<noteq> None)
      else Inl Panic)"
  by (simp add: Get_def GetShard_def SHARD_COUNT_def Let_def)

text \<open>C10: in every state and for every key, \<^verbatim>\<open>GetShard\<close> selects the shard whose index
  is the hash of the key modulo 32, and \<^verbatim>\<open>Has\<close> and \<^verbatim>\<open>Get\<close> answer from the offset index of
  that one shard and of no other (or panic when the engine has no such shard): \<^verbatim>\<open>Has\<close>
  says whether the key is there, \<^verbatim>\<open>Get\<close> returns the pointer stored under it and whether
  it is there.  \<^verbatim>\<open>Set\<close> places by round-robin, and so there is a state reached by
  \<^verbatim>\<open>NewConcurrentMap\<close> and one successful \<^verbatim>\<open>Set\<close>, and a key \<open>k\<close> that this \<^verbatim>\<open>Set\<close> installed,
  such that \<open>k\<close> is in the offset index of a shard (the one the round-robin chose), the
  hash of \<open>k\<close> selects another shard, \<^verbatim>\<open>Has(k)\<close> is false and \<^verbatim>\<open>Get(k)\<close> reports the key as
  absent.\<close>

theorem Has_Get_miss_installed_key:
  "GetShard m key =
     (if unat (fnv32 key) mod 32 < length (Shared m)
      then Inr (unat (fnv32 key) mod 32) else Inl Panic) \<and>
   Has m key =
     (if unat (fnv32 key) mod 32 < length (Shared m)
      then Inr (fmlookup (Items (Shared m ! (unat (fnv32 key) mod 32))) key \<noteq> None)
      else Inl Panic) \<and>
   Get m key =
     (if unat (fnv32 key) mod 32 < length (Shared m)
      then Inr (fmlookup (Items (Shared m ! (unat (fnv32 key) mod 32))) key,
                fmlookup (Items (Shared m ! (unat (fnv32 key) mod 32))) key \<noteq> None)
      else Inl Panic) \<and>
   (\<exists>files w ixs (v :: nat) m0 destMap m' k si.
     NewConcurrentMap [] files = Inr m0 \<and>
     Set w ixs v m0 = (Inr destMap, m') \<and>
     fmlookup destMap k \<noteq> None \<and>
     si < length (Shared m') \<and> fmlookup (Items (Shared m' ! si)) k \<noteq> None \<and>
     GetShard m' k \<noteq> Inr si \<and>
     Has m' k = Inr False \<and> Get m' k = Inr (None, False))"
proof (intro conjI)
  let ?k = "''email:a@x''"
  have "fmlookup (fmupd ''id:r1'' (1::int) (fmupd ''email:a@x'' 1 fmempty)) ?k \<noteq> None"
    by simp
  moreover have "(1::nat) < length (Shared after_email)"
    by (simp add: length_after_email)
  moreover have "fmlookup (Items (Shared after_email ! 1)) ?k \<noteq> None"
    by (simp add: Shared_after_email_1)
  moreover have "GetShard after_email ?k \<noteq> Inr 1"
    by (simp add: GetShard_after_email)
  moreover have "Has after_email ?k = Inr False"
    by (simp add: Has_def GetShard_after_email Shared_after_email_other)
  moreover have "Get after_email ?k = Inr (None, False)"
    by (simp add: Get_def GetShard_after_email Shared_after_email_other)
  ultimately show "\<exists>files w ixs (v :: nat) m0 destMap m' k si.
     NewConcurrentMap [] files = Inr m0 \<and>
     Set w ixs v m0 = (Inr destMap, m') \<and>
     fmlookup destMap k \<noteq> None \<and>
     si < length (Shared m') \<and> fmlookup (Items (Shared m' ! si)) k \<noteq> None \<and>
     GetShard m' k \<noteq> Inr si \<and>
     Has m' k = Inr False \<and> Get m' k = Inr (None, False)"
    using fresh_New Set_by_email by blast
qed (rule GetShard_by_hash Has_by_hash Get_by_hash)+

section \<open>Lookup of a deleted record by its unique key (C1)\<close>

lemma Shared_after_email_Suc0:
  "Shared after_email ! Suc 0 =
     \<lparr>Id_shard = 1, Items = fmupd ''id:r1'' 0 (fmupd ''email:a@x'' 0 fmempty),
      capacity = fmempty, file_shard = [1, 2, 7]\<rparr>"
  by (simp add: after_email_def length_fresh)

lemma heap_after_email: "heap after_email = [\<lparr>Start = 0, Length = 3, Deleted = False\<rparr>]"
  by (simp add: after_email_def)

lemma DeleteByUniqueKey_after_email:
  "DeleteByUniqueKey 1 ''email'' ''a@x'' after_email =
     (None, after_email\<lparr>heap := [\<lparr>Start = 0, Length = 3, Deleted = True\<rparr>]\<rparr>)"
  by (simp add: DeleteByUniqueKey_def length_after_email Shared_after_email_Suc0
      heap_after_email set_Deleted_def)

lemma ReadAtOffset_Deleted: "ReadAtOffset shard (offset\<lparr>Deleted := b\<rparr>) = ReadAtOffset shard offset"
  by (simp add: ReadAtOffset_def Let_def)

lemma ReadAtOffset_set_Deleted:
  "ReadAtOffset shard (set_Deleted b a h ! x) = ReadAtOffset shard (h ! x)"
proof (cases "a < length h \<and> a = x")
  case True
  then show ?thesis by (simp add: set_Deleted_def ReadAtOffset_Deleted)
next
  case False
  then have "set_Deleted b a h ! x = h ! x"
    by (cases "a < length h") (auto simp: set_Deleted_def not_less list_update_beyond)
  then show ?thesis by simp
qed

lemma length_set_Deleted: "length (set_Deleted b a h) = length h"
  by (simp add: set_Deleted_def)

lemma FindByUniqueKey_ignores_Deleted:
  "FindByUniqueKey (m\<lparr>heap := set_Deleted b a (heap m)\<rparr>) si key v = FindByUniqueKey m si key v"
  by (simp add: FindByUniqueKey_def ReadAtOffset_set_Deleted length_set_Deleted
      split: option.splits)

text \<open>C1 does not hold of the code.  \<^verbatim>\<open>FindByUniqueKey\<close> never reads the \<^verbatim>\<open>Deleted\<close> flag
  (\<open>FindByUniqueKey_ignores_Deleted\<close>): on the engine that one \<^verbatim>\<open>Set\<close> with the unique key
  \<open>email:a@x\<close> produced, \<^verbatim>\<open>DeleteByUniqueKey\<close> on that key succeeds and marks the
  descriptor, and \<^verbatim>\<open>FindByUniqueKey\<close> on the key, and \<^verbatim>\<open>FindById\<close> on the record, still
  return the three bytes of the payload and no error.\<close>

theorem FindByUniqueKey_returns_deleted:
  "Set world0 [by_email] 7 fresh =
     (Inr (fmupd ''id:r1'' 1 (fmupd ''email:a@x'' 1 fmempty)), after_email) \<and>
   fst (DeleteByUniqueKey 1 ''email'' ''a@x'' after_email) = None \<and>
   Deleted (heap (snd (DeleteByUniqueKey 1 ''email'' ''a@x'' after_email)) ! 0) \<and>
   FindByUniqueKey (snd (DeleteByUniqueKey 1 ''email'' ''a@x'' after_email)) 1
     ''email'' ''a@x'' = ([1, 2, 7], None) \<and>
   FindById (snd (DeleteByUniqueKey 1 ''email'' ''a@x'' after_email)) 1 ''r1''
     = ([1, 2, 7], None)"
  unfolding Set_by_email DeleteByUniqueKey_after_email
  by (simp add: FindById_def FindByUniqueKey_def ReadAtOffset_def length_after_email
      Shared_after_email_Suc0)

section \<open>Logical deletion leaves the offset index alone (C9)\<close>

lemma DeleteByUniqueKey_Shared: "Shared (snd (DeleteByUniqueKey si key v m)) = Shared m"
  by (simp add: DeleteByUniqueKey_def split: option.splits)

lemma RestoreByUniqueKey_Shared: "Shared (snd (RestoreByUniqueKey si key v m)) = Shared m"
  by (simp add: RestoreByUniqueKey_def split: option.splits)

lemma DeleteByKey_shards_Shared:
  "Shared (snd (DeleteByKey_shards ns key v limit m cnt dests)) = Shared m"
proof (induction ns arbitrary: m cnt dests)
  case Nil
  show ?case by simp
next
  case (Cons n ns)
  show ?case
  proof (cases "n < length (Shared m)")
    case False
    then show ?thesis by simp
  next
    case True
    let ?r = "delete_scan (Items (Shared m ! n)) ('':'' @ key @ '':'' @ v) limit
                (GetCapacityKey (Shared m ! n) (key @ '':'' @ v) - 1) (heap m) cnt dests"
    obtain e h c d where r: "?r = (e, h, c, d)" by (metis prod_cases4)
    show ?thesis
      using True r Cons.IH [of "m\<lparr>heap := h\<rparr>" c d]
      by (cases e) (simp_all add: Let_def)
  qed
qed

lemma RestoreByKey_shards_Items:
  "map Items (Shared (snd (RestoreByKey_shards ns key v limit m cnt))) = map Items (Shared m)"
proof (induction ns arbitrary: m cnt)
  case Nil
  show ?case by simp
next
  case (Cons n ns)
  show ?case
  proof (cases "n < length (Shared m)")
    case False
    then show ?thesis by simp
  next
    case True
    let ?kv = "key @ '':'' @ v"
    let ?len = "GetCapacityKey (Shared m ! n) ?kv"
    let ?r = "restore_scan (Items (Shared m ! n)) ('':'' @ ?kv) limit (?len - 1) (heap m) cnt"
    obtain e h c where r: "?r = (e, h, c)" by (metis prod_cases3)
    let ?m = "m\<lparr>Shared := list_update (Shared m) n (SetCapacityKey (Shared m ! n) ?kv (?len + c)),
                heap := h\<rparr>"
    have "map Items (Shared ?m) = map Items (Shared m)"
      using True by (simp add: map_update SetCapacityKey_def list_update_same_conv)
    with True r Cons.IH [of ?m c] show ?thesis
      by (cases e) (simp_all add: Let_def)
  qed
qed

lemma Count_shards_Items:
  "map Items (Shared m') = map Items (Shared m) \<Longrightarrow>
   Count_shards is m' count = Count_shards is m count"
proof (induction "is" arbitrary: count)
  case Nil
  show ?case by simp
next
  case (Cons i "is")
  from Cons.prems have len: "length (Shared m') = length (Shared m)"
    by (rule map_eq_imp_length_eq)
  have "Items (Shared m' ! i) = Items (Shared m ! i)" if "i < length (Shared m)"
  proof -
    have "map Items (Shared m') ! i = map Items (Shared m) ! i"
      by (simp only: Cons.prems)
    with that len show ?thesis by simp
  qed
  with len Cons show ?case by simp
qed

lemma Count_Items: "map Items (Shared m') = map Items (Shared m) \<Longrightarrow> Count m' = Count m"
  unfolding Count_def by (rule Count_shards_Items)

text \<open>C9: \<^verbatim>\<open>DeleteByUniqueKey\<close>, \<^verbatim>\<open>DeleteById\<close>, \<^verbatim>\<open>DeleteByKey\<close>, \<^verbatim>\<open>RestoreByUniqueKey\<close> and
  \<^verbatim>\<open>RestoreByKey\<close> leave the offset index of every shard as it was, whatever the state and
  the arguments and whether they succeed or not, and \<^verbatim>\<open>Count\<close> gives the same answer after
  the call as before it.\<close>

theorem logical_deletion_keeps_Count:
  "map Items (Shared (snd (DeleteByUniqueKey si key v m))) = map Items (Shared m) \<and>
   map Items (Shared (snd (DeleteById si ident m))) = map Items (Shared m) \<and>
   map Items (Shared (snd (DeleteByKey key v limit m))) = map Items (Shared m) \<and>
   map Items (Shared (snd (RestoreByUniqueKey si key v m))) = map Items (Shared m) \<and>
   map Items (Shared (snd (RestoreByKey key v limit m))) = map Items (Shared m) \<and>
   Count (snd (DeleteByUniqueKey si key v m)) = Count m \<and>
   Count (snd (DeleteById si ident m)) = Count m \<and>
   Count (snd (DeleteByKey key v limit m)) = Count m \<and>
   Count (snd (RestoreByUniqueKey si key v m)) = Count m \<and>
   Count (snd (RestoreByKey key v limit m)) = Count m"
proof -
  have a: "map Items (Shared (snd (DeleteByUniqueKey si key v m))) = map Items (Shared m)"
    by (simp add: DeleteByUniqueKey_Shared)
  have b: "map Items (Shared (snd (DeleteById si ident m))) = map Items (Shared m)"
    by (simp add: DeleteById_def DeleteByUniqueKey_Shared)
  have c: "map Items (Shared (snd (DeleteByKey key v limit m))) = map Items (Shared m)"
    by (simp add: DeleteByKey_def DeleteByKey_shards_Shared)
  have d: "map Items (Shared (snd (RestoreByUniqueKey si key v m))) = map Items (Shared m)"
    by (simp add: RestoreByUniqueKey_Shared)
  have e: "map Items (Shared (snd (RestoreByKey key v limit m))) = map Items (Shared m)"
    by (simp add: RestoreByKey_def RestoreByKey_shards_Items)
  show ?thesis
    using a b c d e Count_Items [OF a] Count_Items [OF b] Count_Items [OF c]
      Count_Items [OF d] Count_Items [OF e]
    by blast
qed

section \<open>A duplicate of a unique key (C6)\<close>

lemma Itoa_0: "Itoa 0 = ''0''"
  by (simp add: Itoa_def digits.simps digit_char_def)

lemma Itoa_small: "Itoa 1 = ''1''" "Itoa 2 = ''2''" "Itoa 3 = ''3''" "Itoa 4 = ''4''"
  by (simp_all add: Itoa_def digits.simps digit_char_def)

lemma Itoa_12: "Itoa 12 = ''12''"
  by (simp add: Itoa_def digits.simps digit_char_def)

lemma install_indexes_append:
  "install_indexes (xs @ ys) a pId shard dm =
     (case install_indexes xs a pId shard dm of
        (None, shard', dm') \<Rightarrow> install_indexes ys a pId shard' dm'
      | (Some err, shard', dm') \<Rightarrow> (Some err, shard', dm'))"
  by (induction xs a pId shard dm rule: install_indexes.induct) (simp_all add: Let_def)

lemma install_indexes_duplicate_at:
  assumes "install_indexes pre a pId shard dm = (None, shard1, dm1)"
    and "Unique ix"
    and "fmlookup (Items shard1) (Field ix @ '':'' @ Data ix) \<noteq> None"
  shows "install_indexes (pre @ ix # post) a pId shard dm = (Some DuplicateKey, shard1, dm1)"
  using assms by (simp add: install_indexes_append)

lemma install_indexes_error:
  "install_indexes ixs a pId shard dm = (Some err, shard', dm') \<Longrightarrow> err = DuplicateKey"
  by (induction ixs a pId shard dm rule: install_indexes.induct)
     (auto simp: Let_def split: if_splits)

lemma install_indexes_duplicate:
  "ix \<in> set ixs \<Longrightarrow> Unique ix \<Longrightarrow>
   fmlookup (Items shard) (Field ix @ '':'' @ Data ix) \<noteq> None \<Longrightarrow>
   fst (install_indexes ixs a pId shard dm) = Some DuplicateKey"
proof (induction ixs a pId shard dm rule: install_indexes.induct)
  case (1 a pId shard destMap)
  then show ?case by simp
next
  case (2 x ixs a pId shard destMap)
  let ?fk = "Field x @ '':'' @ Data x"
  from "2.prems"(3) obtain b where b: "fmlookup (Items shard) (Field ix @ '':'' @ Data ix) = Some b"
    by auto
  show ?case
  proof (cases "Unique x")
    case True
    show ?thesis
    proof (cases "fmlookup (Items shard) ?fk = None")
      case False
      with True show ?thesis by (simp add: Let_def)
    next
      case absent: True
      with "2.prems" True have "ix \<in> set ixs" by auto
      moreover from absent b have "?fk \<noteq> Field ix @ '':'' @ Data ix" by auto
      ultimately show ?thesis
        using "2.IH"(1) [OF refl True _ _ "2.prems"(2)] True absent b by (simp add: Let_def)
    qed
  next
    case False
    let ?i = "next_index (Items shard) ?fk (GetCapacityKey shard ?fk)"
    have "fmlookup (Items shard) (Itoa ?i @ '':'' @ ?fk) = None" by (rule next_index_free)
    with b have ne: "Itoa ?i @ '':'' @ ?fk \<noteq> Field ix @ '':'' @ Data ix" by auto
    from "2.prems" False have "ix \<in> set ixs" by auto
    then show ?thesis
      using "2.IH"(2) [OF refl False refl refl _ "2.prems"(2)] False b ne
      by (simp add: Let_def SetCapacityKey_def)
  qed
qed

lemma GetNextShard_after_email_0:
  "GetNextShard (after_email\<lparr>counter := 0\<rparr>) = (Inr 1, after_email\<lparr>counter := 1\<rparr>)"
  by (simp add: GetNextShard_def Let_def length_after_email word_le_nat_alt)

lemma install_by_tag:
  "install_indexes [by_tag] (length (heap (after_email\<lparr>counter := 0\<rparr>)))
     (Id_shard (Shared (after_email\<lparr>counter := 0\<rparr>) ! 1))
     ((Shared (after_email\<lparr>counter := 0\<rparr>) ! 1)
        \<lparr>file_shard := file_shard (Shared (after_email\<lparr>counter := 0\<rparr>) ! 1) @ [1, 2, 9]\<rparr>)
     fmempty
   = (None, tagged_shard, fmupd ''0:tag:red'' 1 fmempty)"
  by (simp add: by_tag_def tagged_shard_def Shared_after_email_Suc0 heap_after_email Let_def
      GetCapacityKey_def SetCapacityKey_def next_index.simps Itoa_0)

text \<open>C6: let \<^verbatim>\<open>Set\<close> get as far as the index (the codec, \<^verbatim>\<open>Seek\<close> and \<^verbatim>\<open>Write\<close> succeed, the
  round-robin gives shard \<open>si\<close>) and let the descriptors \<open>pre\<close> before the unique descriptor
  \<open>ix\<close> be installed.  If the key \<open>Field:Data\<close> of \<open>ix\<close> is then in the offset index of the
  shard, \<^verbatim>\<open>Set\<close> fails with \<open>DuplicateKey\<close>, and nothing is rolled back: the shard keeps
  the entries of \<open>pre\<close>, all pointing at the new descriptor, and every entry it had; its file
  keeps the appended block; the store keeps the new descriptor.\<close>

theorem Set_duplicate_unique_key:
  assumes enc: "EncodeGob w (xid_New w, v) = Inr encodedData"
    and nxt: "GetNextShard m = (Inr si, m1)"
    and io: "\<not> seek_fails w" "length encodedData \<le> write_accepts w"
    and pre: "install_indexes pre (length (heap m)) (Id_shard (Shared m ! si))
                ((Shared m ! si)\<lparr>file_shard := file_shard (Shared m ! si) @ encodedData\<rparr>)
                fmempty = (None, shard1, dm1)"
    and ix: "Unique ix" "fmlookup (Items shard1) (Field ix @ '':'' @ Data ix) \<noteq> None"
    and res: "Set w (pre @ ix # post) v m = (r, m')"
  shows "r = Inl DuplicateKey \<and>
         Shared m' = list_update (Shared m) si shard1 \<and>
         file_shard (Shared m' ! si) = file_shard (Shared m ! si) @ encodedData \<and>
         heap m' = heap m @ [\<lparr>Start = int (length (file_shard (Shared m ! si))),
                               Length = int (length encodedData), Deleted = False\<rparr>] \<and>
         (\<forall>k p. fmlookup dm1 k = Some p \<longrightarrow>
                  fmlookup (Items (Shared m' ! si)) k = Some (length (heap m))) \<and>
         (\<forall>k b. fmlookup (Items (Shared m ! si)) k = Some b \<longrightarrow>
                  fmlookup (Items (Shared m' ! si)) k = Some b)"
proof -
  let ?sh = "(Shared m ! si)\<lparr>file_shard := file_shard (Shared m ! si) @ encodedData\<rparr>"
  let ?off = "\<lparr>Start = int (length (file_shard (Shared m ! si))),
               Length = int (length encodedData), Deleted = False\<rparr>"
  have lt: "si < length (Shared m)" and m1: "m1 = m\<lparr>counter := of_nat si\<rparr>"
    using GetNextShard_Inr [OF nxt] by simp_all
  have mn: "min (write_accepts w) (length encodedData) = length encodedData"
    using io by simp
  have dup: "install_indexes (pre @ ix # post) (length (heap m)) (Id_shard (Shared m ! si))
               ?sh fmempty = (Some DuplicateKey, shard1, dm1)"
    using pre ix by (rule install_indexes_duplicate_at)
  have "Set w (pre @ ix # post) v m =
          (Inl DuplicateKey, m1\<lparr>Shared := list_update (Shared m) si shard1,
                                heap := heap m @ [?off]\<rparr>)"
    using enc nxt io mn dup by (simp add: Set_def Let_def m1)
  with res have r: "r = Inl DuplicateKey"
    and m': "m' = m1\<lparr>Shared := list_update (Shared m) si shard1, heap := heap m @ [?off]\<rparr>"
    by simp_all
  have sh: "Shared m' ! si = shard1" using lt by (simp add: m')
  have "file_shard shard1 = file_shard ?sh"
    using install_indexes_frame [OF pre] by simp
  then have f: "file_shard (Shared m' ! si) = file_shard (Shared m ! si) @ encodedData"
    by (simp add: sh)
  have new: "fmlookup (Items (Shared m' ! si)) k = Some (length (heap m))"
    if "fmlookup dm1 k = Some p" for k p
    using install_indexes_same [OF pre _ that] by (simp add: sh)
  have old: "fmlookup (Items (Shared m' ! si)) k = Some b"
    if "fmlookup (Items (Shared m ! si)) k = Some b" for k b
    using install_indexes_keeps [OF pre, of k b] that by (simp add: sh)
  from r f new old show ?thesis
    by (simp add: m')
qed

theorem Set_duplicate_unique_key_witness:
  "EncodeGob world0 (xid_New world0, 9) = Inr [1, 2, 9] \<and>
   GetNextShard (after_email\<lparr>counter := 0\<rparr>) = (Inr 1, after_email\<lparr>counter := 1\<rparr>) \<and>
   \<not> seek_fails world0 \<and> length [1 :: byte, 2, 9] \<le> write_accepts world0 \<and>
   Unique by_email \<and>
   fmlookup (Items tagged_shard) (Field by_email @ '':'' @ Data by_email) \<noteq> None \<and>
   fst (Set world0 ([by_tag] @ by_email # []) 9 (after_email\<lparr>counter := 0\<rparr>))
     = Inl DuplicateKey \<and>
   Shared (snd (Set world0 ([by_tag] @ by_email # []) 9 (after_email\<lparr>counter := 0\<rparr>)))
     = list_update (Shared (after_email\<lparr>counter := 0\<rparr>)) 1 tagged_shard \<and>
   fmlookup (Items (Shared (snd (Set world0 ([by_tag] @ by_email # []) 9
                                   (after_email\<lparr>counter := 0\<rparr>))) ! 1))
     ''0:tag:red'' = Some 1"
proof -
  let ?m = "after_email\<lparr>counter := 0\<rparr>"
  let ?res = "Set world0 ([by_tag] @ by_email # []) 9 ?m"
  have enc: "EncodeGob world0 (xid_New world0, 9) = Inr [1, 2, 9]"
    by (simp add: world0_def)
  have io: "\<not> seek_fails world0" "length [1 :: byte, 2, 9] \<le> write_accepts world0"
    by (simp_all add: world0_def)
  have ix: "Unique by_email"
    "fmlookup (Items tagged_shard) (Field by_email @ '':'' @ Data by_email) \<noteq> None"
    by (simp_all add: by_email_def tagged_shard_def)
  have res: "?res = (fst ?res, snd ?res)" by simp
  note t = Set_duplicate_unique_key [OF enc GetNextShard_after_email_0 io install_by_tag ix res]
  have "fmlookup (fmupd ''0:tag:red'' (1::int) fmempty) ''0:tag:red'' = Some 1" by simp
  with t have "fmlookup (Items (Shared (snd ?res) ! 1)) ''0:tag:red''
                 = Some (length (heap ?m))"
    by blast
  then have "fmlookup (Items (Shared (snd ?res) ! 1)) ''0:tag:red'' = Some 1"
    by (simp add: heap_after_email)
  with t enc io ix GetNextShard_after_email_0 show ?thesis by blast
qed

section \<open>One descriptor behind all the keys of a record\<close>

lemma install_indexes_dest_mono:
  "install_indexes ixs a pId shard dm = (r, shard', dm') \<Longrightarrow>
   fmlookup dm k \<noteq> None \<Longrightarrow> fmlookup dm' k \<noteq> None"
  by (induction ixs a pId shard dm rule: install_indexes.induct)
     (auto simp: Let_def split: if_splits)

lemma install_indexes_covers:
  "install_indexes ixs a pId shard dm = (None, shard', dm') \<Longrightarrow> ix \<in> set ixs \<Longrightarrow>
   (if Unique ix then fmlookup dm' (Field ix @ '':'' @ Data ix) \<noteq> None
    else \<exists>n. fmlookup dm' (Itoa n @ '':'' @ Field ix @ '':'' @ Data ix) \<noteq> None)"
proof (induction ixs a pId shard dm rule: install_indexes.induct)
  case (1 a pId shard destMap)
  then show ?case by simp
next
  case (2 x ixs a pId shard destMap)
  let ?fk = "Field x @ '':'' @ Data x"
  show ?case
  proof (cases "Unique x")
    case True
    with "2.prems"(1) have absent: "fmlookup (Items shard) ?fk = None"
      by (auto simp: Let_def split: if_splits)
    let ?sh = "shard\<lparr>Items := fmupd ?fk a (Items shard)\<rparr>"
    let ?dm = "fmupd ?fk pId destMap"
    from True absent "2.prems"(1)
    have run: "install_indexes ixs a pId ?sh ?dm = (None, shard', dm')"
      by (simp add: Let_def)
    show ?thesis
    proof (cases "ix = x")
      case same: True
      have "fmlookup ?dm ?fk \<noteq> None" by simp
      with run have "fmlookup dm' ?fk \<noteq> None" by (rule install_indexes_dest_mono)
      with same True show ?thesis by simp
    next
      case False
      with "2.prems"(2) have "ix \<in> set ixs" by simp
      with "2.IH"(1) [OF refl True _ run] absent show ?thesis by simp
    qed
  next
    case False
    let ?i = "next_index (Items shard) ?fk (GetCapacityKey shard ?fk)"
    let ?la = "Itoa ?i @ '':'' @ ?fk"
    let ?sh = "SetCapacityKey (shard\<lparr>Items := fmupd ?la a (Items shard)\<rparr>) ?fk ?i"
    let ?dm = "fmupd ?la pId destMap"
    from False "2.prems"(1)
    have run: "install_indexes ixs a pId ?sh ?dm = (None, shard', dm')"
      by (simp add: Let_def)
    show ?thesis
    proof (cases "ix = x")
      case same: True
      have "fmlookup ?dm ?la \<noteq> None" by simp
      with run have "fmlookup dm' ?la \<noteq> None" by (rule install_indexes_dest_mono)
      with same False show ?thesis by auto
    next
      case other: False
      with "2.prems"(2) have "ix \<in> set ixs" by simp
      with "2.IH"(2) [OF refl False refl refl run] show ?thesis by simp
    qed
  qed
qed

lemma Deleted_via_set_Deleted:
  "fmlookup (Items (Shared m ! si)) k = Some a \<Longrightarrow> a < length (heap m) \<Longrightarrow>
   Deleted_via (m\<lparr>heap := set_Deleted b a (heap m)\<rparr>) si k = Some b"
  by (simp add: Deleted_via_def set_Deleted_def)

lemma unat_of_nat_shard: "si < 32 \<Longrightarrow> unat (of_nat si :: 64 word) = si"
  by (simp add: unat_of_nat)

lemma Set_both:
  "Set world0 [by_tag, by_email] 7 fresh =
     (Inr (fmupd ''id:r1'' 1 (fmupd ''email:a@x'' 1 (fmupd ''0:tag:red'' 1 fmempty))),
      after_both)"
  by (simp add: Set_def world0_def by_email_def by_tag_def GetNextShard_def after_both_def
      length_fresh Shared_fresh_nth heap_fresh counter_fresh NewConcurrentMapShared_def
      Let_def word_le_nat_alt GetCapacityKey_def SetCapacityKey_def next_index.simps Itoa_0)

lemma counter_after_both: "unat (counter after_both) = 1"
  by (simp add: after_both_def)

text \<open>What a successful \<^verbatim>\<open>Set\<close> does establish: the returned map holds the identity key
  \<open>id:<id>\<close> and a key for every descriptor supplied (the composed key of a unique one, an
  ordinal key of a regular one), and every key of the returned map is stored in the shard
  the round-robin chose with one and the same address, that of the descriptor the call
  allocated.  Hence \<^verbatim>\<open>DeleteByUniqueKey\<close> through any of these keys succeeds and sets the
  flag read through every one of them, and \<^verbatim>\<open>RestoreByUniqueKey\<close> clears it again for every
  one of them.  What the lookups make of the flag is another matter, see below.\<close>

lemma Set_entries_share_descriptor:
  assumes run: "Set w indexData v m = (Inr destMap, m')"
  shows "fmlookup destMap (''id:'' @ xid_New w) \<noteq> None \<and>
    (\<forall>ix \<in> set indexData.
       if Unique ix then fmlookup destMap (Field ix @ '':'' @ Data ix) \<noteq> None
       else \<exists>n. fmlookup destMap (Itoa n @ '':'' @ Field ix @ '':'' @ Data ix) \<noteq> None) \<and>
    unat (counter m') < length (Shared m') \<and>
    length (heap m) < length (heap m') \<and>
    (\<forall>k. fmlookup destMap k \<noteq> None \<longrightarrow>
       fmlookup (Items (Shared m' ! unat (counter m'))) k = Some (length (heap m)) \<and>
       Deleted_via m' (unat (counter m')) k = Some False) \<and>
    (\<forall>f x k. fmlookup destMap (f @ '':'' @ x) \<noteq> None \<and> fmlookup destMap k \<noteq> None \<longrightarrow>
       fst (DeleteByUniqueKey (unat (counter m')) f x m') = None \<and>
       Deleted_via (snd (DeleteByUniqueKey (unat (counter m')) f x m')) (unat (counter m')) k
         = Some True \<and>
       fst (RestoreByUniqueKey (unat (counter m')) f x
              (snd (DeleteByUniqueKey (unat (counter m')) f x m'))) = None \<and>
       Deleted_via (snd (RestoreByUniqueKey (unat (counter m')) f x
                           (snd (DeleteByUniqueKey (unat (counter m')) f x m'))))
         (unat (counter m')) k = Some False)"
proof -
  let ?a = "length (heap m)"
  let ?idKey = "''id:'' @ xid_New w"
  from run obtain si m1 encodedData shard2 dm where
    nxt: "GetNextShard m = (Inr si, m1)"
    and inst: "install_indexes indexData ?a (Id_shard (Shared m ! si))
       ((Shared m ! si)\<lparr>file_shard := file_shard (Shared m ! si) @ encodedData\<rparr>) fmempty
     = (None, shard2, dm)"
    and dest: "destMap = fmupd ?idKey (Id_shard (Shared m ! si)) dm"
    and m': "m' = m1\<lparr>Shared := list_update (Shared m) si
                  (shard2\<lparr>Items := fmupd ?idKey ?a (Items shard2)\<rparr>),
              heap := heap m @ [\<lparr>Start = int (length (file_shard (Shared m ! si))),
                                  Length = int (length encodedData), Deleted = False\<rparr>]\<rparr>"
    by (rule Set_InrE)
  have lt: "si < length (Shared m)" and m1: "m1 = m\<lparr>counter := of_nat si\<rparr>"
    and si32: "si < 32"
    using GetNextShard_Inr [OF nxt] by simp_all
  have si: "unat (counter m') = si"
    by (simp add: m' m1 unat_of_nat_shard [OF si32])
  have items: "Items (Shared m' ! si) = fmupd ?idKey ?a (Items shard2)"
    using lt by (simp add: m')
  have len: "length (heap m') = Suc ?a" by (simp add: m')
  have new: "heap m' ! ?a = \<lparr>Start = int (length (file_shard (Shared m ! si))),
                  Length = int (length encodedData), Deleted = False\<rparr>"
    by (simp add: m')
  have points: "fmlookup (Items (Shared m' ! si)) k = Some ?a" if "fmlookup destMap k \<noteq> None" for k
  proof (cases "k = ?idKey")
    case True
    then show ?thesis by (simp add: items)
  next
    case False
    with that obtain p where "fmlookup dm k = Some p" by (auto simp: dest)
    from install_indexes_same [OF inst _ this] have "fmlookup (Items shard2) k = Some ?a"
      by simp
    with False show ?thesis by (simp add: items)
  qed
  have c1: "fmlookup destMap ?idKey \<noteq> None" by (simp add: dest)
  have c2: "\<forall>ix \<in> set indexData.
       if Unique ix then fmlookup destMap (Field ix @ '':'' @ Data ix) \<noteq> None
       else \<exists>n. fmlookup destMap (Itoa n @ '':'' @ Field ix @ '':'' @ Data ix) \<noteq> None"
  proof
    fix ix assume "ix \<in> set indexData"
    from install_indexes_covers [OF inst this]
    show "if Unique ix then fmlookup destMap (Field ix @ '':'' @ Data ix) \<noteq> None
       else \<exists>n. fmlookup destMap (Itoa n @ '':'' @ Field ix @ '':'' @ Data ix) \<noteq> None"
      by (auto simp: dest split: if_splits)
  qed
  have c3: "si < length (Shared m')" using lt by (simp add: m')
  have c4: "?a < length (heap m')" by (simp add: len)
  have c5: "fmlookup (Items (Shared m' ! si)) k = Some ?a \<and> Deleted_via m' si k = Some False"
    if "fmlookup destMap k \<noteq> None" for k
    using points [OF that] c4 new by (simp add: Deleted_via_def)
  have c6: "fst (DeleteByUniqueKey si f x m') = None \<and>
       Deleted_via (snd (DeleteByUniqueKey si f x m')) si k = Some True \<and>
       fst (RestoreByUniqueKey si f x (snd (DeleteByUniqueKey si f x m'))) = None \<and>
       Deleted_via (snd (RestoreByUniqueKey si f x (snd (DeleteByUniqueKey si f x m')))) si k
         = Some False"
    if fx: "fmlookup destMap (f @ '':'' @ x) \<noteq> None" and k: "fmlookup destMap k \<noteq> None"
    for f x k
  proof -
    let ?d = "m'\<lparr>heap := set_Deleted True ?a (heap m')\<rparr>"
    let ?r = "?d\<lparr>heap := set_Deleted False ?a (heap ?d)\<rparr>"
    have del: "DeleteByUniqueKey si f x m' = (None, ?d)"
      using points [OF fx] c3 c4 by (simp add: DeleteByUniqueKey_def)
    have pk: "fmlookup (Items (Shared ?d ! si)) k = Some ?a"
      using points [OF k] by simp
    have pf: "fmlookup (Items (Shared ?d ! si)) (f @ '':'' @ x) = Some ?a"
      using points [OF fx] by simp
    have ld: "?a < length (heap ?d)" using c4 by (simp add: length_set_Deleted)
    have res: "RestoreByUniqueKey si f x ?d = (None, ?r)"
      using pf c3 ld by (simp add: RestoreByUniqueKey_def)
    have "Deleted_via ?d si k = Some True"
      using points [OF k] c4 by (rule Deleted_via_set_Deleted)
    moreover have "Deleted_via ?r si k = Some False"
      using pk ld by (rule Deleted_via_set_Deleted)
    ultimately show ?thesis by (simp add: del res)
  qed
  from c1 c2 c3 c4 c5 c6 show ?thesis
    unfolding si by blast
qed

lemma Set_entries_share_descriptor_example:
  "Set world0 [by_tag, by_email] 7 fresh =
     (Inr (fmupd ''id:r1'' 1 (fmupd ''email:a@x'' 1 (fmupd ''0:tag:red'' 1 fmempty))),
      after_both) \<and>
   by_tag \<in> set [by_tag, by_email] \<and> \<not> Unique by_tag \<and>
   fmlookup (Items (Shared after_both ! 1)) ''email:a@x'' = Some 0 \<and>
   fmlookup (Items (Shared after_both ! 1)) ''0:tag:red'' = Some 0 \<and>
   fst (DeleteByUniqueKey 1 ''0'' ''tag:red'' after_both) = None \<and>
   Deleted_via (snd (DeleteByUniqueKey 1 ''0'' ''tag:red'' after_both)) 1 ''email:a@x''
     = Some True \<and>
   Deleted_via (snd (DeleteByUniqueKey 1 ''0'' ''tag:red'' after_both)) 1 ''id:r1''
     = Some True"
proof -
  let ?dm = "fmupd ''id:r1'' (1::int) (fmupd ''email:a@x'' 1 (fmupd ''0:tag:red'' 1 fmempty))"
  note t = Set_entries_share_descriptor [OF Set_both]
  have k1: "fmlookup ?dm (''0'' @ '':'' @ ''tag:red'') \<noteq> None"
    and k2: "fmlookup ?dm ''email:a@x'' \<noteq> None"
    and k3: "fmlookup ?dm ''id:r1'' \<noteq> None"
    and k4: "fmlookup ?dm ''0:tag:red'' \<noteq> None"
    by simp_all
  from t k2 have p2: "fmlookup (Items (Shared after_both ! unat (counter after_both)))
      ''email:a@x'' = Some (length (heap fresh))" by blast
  from t k4 have p4: "fmlookup (Items (Shared after_both ! unat (counter after_both)))
      ''0:tag:red'' = Some (length (heap fresh))" by blast
  from t k1 k2 have d2:
    "fst (DeleteByUniqueKey (unat (counter after_both)) ''0'' ''tag:red'' after_both) = None \<and>
     Deleted_via (snd (DeleteByUniqueKey (unat (counter after_both)) ''0'' ''tag:red'' after_both))
       (unat (counter after_both)) ''email:a@x'' = Some True"
    by blast
  from t k1 k3 have d3:
    "Deleted_via (snd (DeleteByUniqueKey (unat (counter after_both)) ''0'' ''tag:red'' after_both))
       (unat (counter after_both)) ''id:r1'' = Some True"
    by blast
  have "by_tag \<in> set [by_tag, by_email]" "\<not> Unique by_tag"
    by (simp_all add: by_tag_def)
  with p2 p4 d2 d3 Set_both show ?thesis
    unfolding counter_after_both heap_fresh by simp
qed

section \<open>The upward scan of \<^verbatim>\<open>FindByKey\<close> (C3)\<close>

lemma find_scan_missing:
  "fmlookup (Items shard) (Itoa i @ kv) = None \<Longrightarrow>
   find_scan h shard kv limit i results = Some (Fallthrough, Inr results)"
  by (subst find_scan.simps) simp

lemma find_scan_live:
  "fmlookup (Items shard) (Itoa i @ kv) = Some a \<Longrightarrow> a < length h \<Longrightarrow>
   \<not> Deleted (h ! a) \<Longrightarrow> ReadAtOffset shard (h ! a) = (data, None) \<Longrightarrow>
   find_scan h shard kv limit i results =
     (if int (length (results @ [data])) = limit then Some (Returned, Inr (results @ [data]))
      else find_scan h shard kv limit (i + 1) (results @ [data]))"
  by (subst find_scan.simps) (simp add: Let_def)

lemma find_scan_deleted_aux:
  assumes "find_scan h shard kv limit i results = Some y"
  shows "\<forall>a. fmlookup (Items shard) (Itoa i @ kv) = Some a \<longrightarrow> a < length h
              \<longrightarrow> \<not> Deleted (h ! a)"
proof (rule find_scan.raw_induct
    [where P = "\<lambda>h shard kv limit i results y.
        \<forall>a. fmlookup (Items shard) (Itoa i @ kv) = Some a \<longrightarrow> a < length h
              \<longrightarrow> \<not> Deleted (h ! a)", OF _ assms], goal_cases)
  case (1 f h shard kv limit i results y)
  show ?case
  proof (intro allI impI notI)
    fix a
    assume a: "fmlookup (Items shard) (Itoa i @ kv) = Some a" "a < length h" "Deleted (h ! a)"
    with 1(2) have "f h shard kv limit i results = Some y" by simp
    from 1(1) [OF this] a show False by blast
  qed
qed

lemma find_scan_deleted:
  assumes "fmlookup (Items shard) (Itoa i @ kv) = Some a" "a < length h" "Deleted (h ! a)"
  shows "find_scan h shard kv limit i results = None"
proof (cases "find_scan h shard kv limit i results")
  case None
  then show ?thesis .
next
  case (Some y)
  from find_scan_deleted_aux [OF this] assms show ?thesis by blast
qed

lemma FindByKey_shards_missing:
  "(\<And>n. n \<in> set ns \<Longrightarrow> n < length (Shared m) \<and>
          fmlookup (Items (Shared m ! n)) (Itoa 0 @ kv) = None) \<Longrightarrow>
   FindByKey_shards ns m kv limit results = Some (Inr results)"
  by (induction ns) (simp_all add: find_scan_missing)

lemma upt_32: "[0..<32] = 0 # Suc 0 # [2..<32]"
  by (simp add: upt_conv_Cons)

lemma length_after_both: "length (Shared after_both) = 32"
  by (simp add: after_both_def length_fresh)

lemma Shared_after_both_Suc0:
  "Shared after_both ! Suc 0 =
     \<lparr>Id_shard = 1,
      Items = fmupd ''id:r1'' 0 (fmupd ''email:a@x'' 0 (fmupd ''0:tag:red'' 0 fmempty)),
      capacity = fmupd ''tag:red'' 0 fmempty, file_shard = [1, 2, 7]\<rparr>"
  by (simp add: after_both_def length_fresh)

lemma Shared_after_both_other:
  "i < 32 \<Longrightarrow> i \<noteq> Suc 0 \<Longrightarrow> Shared after_both ! i = NewConcurrentMapShared [] (int i) []"
  by (simp add: after_both_def Shared_fresh_nth)

lemma heap_after_both: "heap after_both = [\<lparr>Start = 0, Length = 3, Deleted = False\<rparr>]"
  by (simp add: after_both_def)

lemma DeleteByUniqueKey_after_both:
  "DeleteByUniqueKey 1 ''email'' ''a@x'' after_both = (None, after_both_deleted)"
  by (simp add: DeleteByUniqueKey_def length_after_both Shared_after_both_Suc0
      heap_after_both set_Deleted_def after_both_deleted_def)

lemma Shared_after_both_deleted: "Shared after_both_deleted = Shared after_both"
  by (simp add: after_both_deleted_def)

lemma heap_after_both_deleted:
  "heap after_both_deleted = [\<lparr>Start = 0, Length = 3, Deleted = True\<rparr>]"
  by (simp add: after_both_deleted_def)

lemma find_scan_shard0:
  "find_scan h (Shared after_both ! 0) '':tag:red'' limit 0 results
     = Some (Fallthrough, Inr results)"
  by (rule find_scan_missing)
     (simp add: Shared_after_both_other NewConcurrentMapShared_def)

lemma find_scan_shard1_deleted:
  "find_scan (heap after_both_deleted) (Shared after_both ! Suc 0) '':tag:red'' limit 0 results
     = None"
  by (rule find_scan_deleted [where a = 0])
     (simp_all add: Shared_after_both_Suc0 heap_after_both_deleted Itoa_0)

lemma find_scan_shard1_live:
  "limit \<noteq> 1 \<Longrightarrow>
   find_scan (heap after_both) (Shared after_both ! Suc 0) '':tag:red'' limit 0 []
     = Some (Fallthrough, Inr [[1, 2, 7]])"
proof -
  assume limit: "limit \<noteq> 1"
  have "find_scan (heap after_both) (Shared after_both ! Suc 0) '':tag:red'' limit 0 []
        = find_scan (heap after_both) (Shared after_both ! Suc 0) '':tag:red'' limit (0 + 1)
            ([] @ [[1, 2, 7]])"
    using limit
    by (subst find_scan_live [where a = 0 and data = "[1, 2, 7]"])
       (simp_all add: Shared_after_both_Suc0 heap_after_both Itoa_0 ReadAtOffset_def)
  also have "\<dots> = Some (Fallthrough, Inr ([] @ [[1, 2, 7]]))"
    by (rule find_scan_missing) (simp add: Shared_after_both_Suc0 Itoa_small)
  finally show ?thesis by simp
qed

lemma FindByKey_shards_after_both:
  "limit \<noteq> 1 \<Longrightarrow>
   FindByKey_shards (0 # Suc 0 # ns) after_both '':tag:red'' limit []
     = FindByKey_shards ns after_both '':tag:red'' limit [[1, 2, 7]]"
  by (simp add: length_after_both find_scan_shard0 find_scan_shard1_live)

lemma FindByKey_after_both:
  assumes "0 \<le> limit" "limit \<noteq> 1"
  shows "FindByKey after_both ''tag'' ''red'' limit = Some (Inr [[1, 2, 7]])"
proof -
  have "FindByKey after_both ''tag'' ''red'' limit
          = FindByKey_shards (0 # Suc 0 # [2..<32]) after_both '':tag:red'' limit []"
    using assms by (simp add: FindByKey_def SHARD_COUNT_def upt_32 del: upt_rec_numeral)
  also have "\<dots> = FindByKey_shards [2..<32] after_both '':tag:red'' limit [[1, 2, 7]]"
    using assms(2) by (rule FindByKey_shards_after_both)
  also have "\<dots> = Some (Inr [[1, 2, 7]])"
    by (rule FindByKey_shards_missing)
       (auto simp: length_after_both Shared_after_both_other NewConcurrentMapShared_def)
  finally show ?thesis .
qed

lemma FindByKey_limit_0: "FindByKey after_both ''tag'' ''red'' 0 = Some (Inr [[1, 2, 7]])"
  by (rule FindByKey_after_both) simp_all

text \<open>C3 does not hold of the code.  On a descriptor marked deleted the scan of \<^verbatim>\<open>FindByKey\<close>
  (and of \<^verbatim>\<open>FindByKeyInShard\<close>) runs \<^verbatim>\<open>continue\<close> in a \<^verbatim>\<open>for\<close> without post statement, so the
  ordinal does not advance and the loop never ends (\<open>find_scan_deleted\<close>).  After one
  \<^verbatim>\<open>Set\<close> with the regular key \<open>tag:red\<close> and the unique key \<open>email:a@x\<close> and a
  \<^verbatim>\<open>DeleteByUniqueKey\<close> of that record, \<^verbatim>\<open>FindByKey("tag", "red", 10)\<close> does not return.\<close>

theorem FindByKey_never_returns:
  "Set world0 [by_tag, by_email] 7 fresh =
     (Inr (fmupd ''id:r1'' 1 (fmupd ''email:a@x'' 1 (fmupd ''0:tag:red'' 1 fmempty))),
      after_both) \<and>
   DeleteByUniqueKey 1 ''email'' ''a@x'' after_both = (None, after_both_deleted) \<and>
   FindByKey after_both_deleted ''tag'' ''red'' 10 = None \<and>
   FindByKeyInShard after_both_deleted 1 ''tag'' ''red'' 10 = None"
proof -
  have "FindByKey after_both_deleted ''tag'' ''red'' 10 = None"
    by (simp add: FindByKey_def SHARD_COUNT_def upt_32 Shared_after_both_deleted
        length_after_both find_scan_shard0 find_scan_shard1_deleted)
  moreover have "FindByKeyInShard after_both_deleted 1 ''tag'' ''red'' 10 = None"
    by (simp add: FindByKeyInShard_def Shared_after_both_deleted
        length_after_both find_scan_shard1_deleted)
  ultimately show ?thesis
    using Set_both DeleteByUniqueKey_after_both by simp
qed

section \<open>\<^verbatim>\<open>RestoreByKey\<close> and the capacity map (C5)\<close>

lemma Set_one_tag:
  "Set world0 [by_tag] 7 fresh =
     (Inr (fmupd ''id:r1'' 1 (fmupd ''0:tag:red'' 1 fmempty)), one_tag)"
  by (simp add: Set_def world0_def by_tag_def GetNextShard_def one_tag_def
      length_fresh Shared_fresh_nth heap_fresh counter_fresh NewConcurrentMapShared_def
      Let_def word_le_nat_alt GetCapacityKey_def SetCapacityKey_def next_index.simps Itoa_0)

lemma SetCounterIndex_one_tag: "SetCounterIndex 0 one_tag = (None, one_tag\<lparr>counter := 0\<rparr>)"
  by (simp add: SetCounterIndex_eq SHARD_COUNT_def)

lemma Set_two_tags:
  "Set world1 [by_tag] 8 (one_tag\<lparr>counter := 0\<rparr>) =
     (Inr (fmupd ''id:r2'' 1 (fmupd ''1:tag:red'' 1 fmempty)), two_tags)"
  by (simp add: Set_def world0_def world1_def by_tag_def GetNextShard_def one_tag_def
      two_tags_def two_tags_shard_def
      length_fresh Shared_fresh_nth heap_fresh counter_fresh NewConcurrentMapShared_def
      Let_def word_le_nat_alt GetCapacityKey_def SetCapacityKey_def next_index.simps Itoa_0
      Itoa_small)

lemma length_two_tags: "length (Shared two_tags) = 32"
  by (simp add: two_tags_def length_fresh)

lemma Shared_two_tags_Suc0: "Shared two_tags ! Suc 0 = two_tags_shard"
  by (simp add: two_tags_def length_fresh)

lemma Shared_two_tags_other:
  "i < 32 \<Longrightarrow> i \<noteq> Suc 0 \<Longrightarrow> Shared two_tags ! i = NewConcurrentMapShared [] (int i) []"
  by (simp add: two_tags_def Shared_fresh_nth)

lemma heap_two_tags:
  "heap two_tags = [\<lparr>Start = 0, Length = 3, Deleted = False\<rparr>,
                    \<lparr>Start = 3, Length = 3, Deleted = False\<rparr>]"
  by (simp add: two_tags_def)

lemma delete_scan_negative: "i < 0 \<Longrightarrow> delete_scan items en limit i h cnt dests = (Fallthrough, h, cnt, dests)"
  by (simp add: delete_scan.simps)

lemma restore_scan_negative: "i < 0 \<Longrightarrow> restore_scan items en limit i h cnt = (Fallthrough, h, cnt)"
  by (simp add: restore_scan.simps)

lemma GetCapacityKey_new: "GetCapacityKey (NewConcurrentMapShared d i f) kv = 0"
  by (simp add: GetCapacityKey_def NewConcurrentMapShared_def)

lemma GetCapacityKey_two_tags_shard: "GetCapacityKey two_tags_shard ''tag:red'' = 1"
  by (simp add: GetCapacityKey_def two_tags_shard_def)

lemma DeleteByKey_two_tags:
  "DeleteByKey ''tag'' ''red'' 1 two_tags = (Inr [''0:tag:red''], two_tags_deleted)"
proof -
  have scan: "delete_scan (Items two_tags_shard) '':tag:red'' 1 0 (heap two_tags) 0 []
          = (Returned, heap two_tags_deleted, 1, [''0:tag:red''])"
    by (simp add: delete_scan.simps [of _ _ _ 0] two_tags_shard_def heap_two_tags Itoa_0
        set_Deleted_def two_tags_deleted_def Let_def)
  show ?thesis
    by (simp add: DeleteByKey_def SHARD_COUNT_def upt_32 length_two_tags Shared_two_tags_Suc0
        Shared_two_tags_other GetCapacityKey_new GetCapacityKey_two_tags_shard
        delete_scan_negative scan two_tags_deleted_def del: upt_rec_numeral)
qed

lemma RestoreByKey_shards_idle:
  assumes "distinct ns"
    and "\<And>n. n \<in> set ns \<Longrightarrow>
           n < length (Shared m) \<and> GetCapacityKey (Shared m ! n) (key @ '':'' @ v) \<le> 0"
  shows "fst (RestoreByKey_shards ns key v limit m cnt) = Inr cnt \<and>
         heap (snd (RestoreByKey_shards ns key v limit m cnt)) = heap m \<and>
         counter (snd (RestoreByKey_shards ns key v limit m cnt)) = counter m \<and>
         length (Shared (snd (RestoreByKey_shards ns key v limit m cnt))) = length (Shared m) \<and>
         (\<forall>n. Shared (snd (RestoreByKey_shards ns key v limit m cnt)) ! n =
            (if n \<in> set ns
             then SetCapacityKey (Shared m ! n) (key @ '':'' @ v)
                    (GetCapacityKey (Shared m ! n) (key @ '':'' @ v) + cnt)
             else Shared m ! n))"
  using assms
proof (induction ns arbitrary: m)
  case Nil
  show ?case by simp
next
  case (Cons n ns)
  let ?kv = "key @ '':'' @ v"
  let ?len = "GetCapacityKey (Shared m ! n) ?kv"
  let ?m = "m\<lparr>Shared := list_update (Shared m) n (SetCapacityKey (Shared m ! n) ?kv (?len + cnt)),
              heap := heap m\<rparr>"
  from Cons.prems have n: "n < length (Shared m)" "?len \<le> 0" "n \<notin> set ns" "distinct ns"
    by auto
  have scan: "restore_scan (Items (Shared m ! n)) ('':'' @ ?kv) limit (?len - 1) (heap m) cnt
               = (Fallthrough, heap m, cnt)"
    using n(2) by (intro restore_scan_negative) simp
  have step: "RestoreByKey_shards (n # ns) key v limit m cnt
                = RestoreByKey_shards ns key v limit ?m cnt"
    using n(1) scan by (simp add: Let_def)
  have idle: "k < length (Shared ?m) \<and> GetCapacityKey (Shared ?m ! k) ?kv \<le> 0"
    if "k \<in> set ns" for k
  proof -
    from that n(3) have "k \<noteq> n" by auto
    with Cons.prems(2) [of k] that show ?thesis by simp
  qed
  note IH = Cons.IH [OF n(4) idle, simplified]
  show ?case
    unfolding step using IH n(1,3) by (auto simp: nth_list_update)
qed

lemma Shared_two_tags_deleted: "Shared two_tags_deleted = Shared two_tags"
  by (simp add: two_tags_deleted_def)

lemma restore_scan_two_tags:
  "restore_scan (Items two_tags_shard) '':tag:red'' 5 0 (heap two_tags_deleted) 0
     = (Fallthrough, heap two_tags, 1)"
  by (simp add: restore_scan.simps [of _ _ _ 0] restore_scan_negative two_tags_shard_def
      two_tags_deleted_def heap_two_tags Itoa_0 set_Deleted_def Let_def)

lemma RestoreByKey_shards_two_tags:
  "RestoreByKey_shards (0 # Suc 0 # ns) ''tag'' ''red'' 5 two_tags_deleted 0
     = RestoreByKey_shards ns ''tag'' ''red'' 5 restore_mid 1"
proof -
  have "two_tags_deleted
         \<lparr>Shared := list_update (list_update (Shared two_tags) 0
              (SetCapacityKey (NewConcurrentMapShared [] 0 []) ''tag:red'' 0))
              (Suc 0) (SetCapacityKey two_tags_shard ''tag:red'' 2),
           heap := heap two_tags\<rparr> = restore_mid"
    by (simp add: restore_mid_def two_tags_deleted_def)
  then show ?thesis
    by (simp add: Shared_two_tags_deleted length_two_tags Shared_two_tags_Suc0
        Shared_two_tags_other GetCapacityKey_new GetCapacityKey_two_tags_shard
        restore_scan_negative restore_scan_two_tags Let_def)
qed

lemma restore_mid_facts:
  "length (Shared restore_mid) = 32" "heap restore_mid = heap two_tags"
  "counter restore_mid = 1"
  "Shared restore_mid ! Suc 0 = SetCapacityKey two_tags_shard ''tag:red'' 2"
  by (simp_all add: restore_mid_def length_two_tags heap_two_tags two_tags_def length_fresh)

lemma Shared_restore_mid_rest:
  "2 \<le> n \<Longrightarrow> n < 32 \<Longrightarrow> Shared restore_mid ! n = NewConcurrentMapShared [] (int n) []"
  by (simp add: restore_mid_def Shared_two_tags_other)

lemma restored_facts:
  "fst (RestoreByKey ''tag'' ''red'' 5 two_tags_deleted) = Inr 1"
  "heap restored = heap two_tags" "counter restored = 1" "length (Shared restored) = 32"
  "Shared restored ! Suc 0 = SetCapacityKey two_tags_shard ''tag:red'' 2"
  "Shared restored ! 2 = SetCapacityKey (NewConcurrentMapShared [] 2 []) ''tag:red'' 1"
proof -
  let ?ns = "[2..<32]"
  have eq: "RestoreByKey ''tag'' ''red'' 5 two_tags_deleted
          = RestoreByKey_shards ?ns ''tag'' ''red'' 5 restore_mid 1"
    unfolding RestoreByKey_def SHARD_COUNT_def
    by (simp add: upt_32 RestoreByKey_shards_two_tags del: upt_rec_numeral RestoreByKey_shards.simps)
  have idle: "n < length (Shared restore_mid) \<and>
              GetCapacityKey (Shared restore_mid ! n) (''tag'' @ '':'' @ ''red'') \<le> 0"
    if "n \<in> set ?ns" for n
    using that by (simp add: restore_mid_facts Shared_restore_mid_rest GetCapacityKey_new
        del: upt_rec_numeral)
  have "distinct ?ns" by (rule distinct_upt)
  note r = RestoreByKey_shards_idle [OF this idle, of 5 1, folded eq]
  from r show "fst (RestoreByKey ''tag'' ''red'' 5 two_tags_deleted) = Inr 1" by blast
  from r show "heap restored = heap two_tags"
    by (simp add: restored_def restore_mid_facts)
  from r show "counter restored = 1"
    by (simp add: restored_def restore_mid_facts)
  from r show "length (Shared restored) = 32"
    by (simp add: restored_def restore_mid_facts)
  from r have nth: "Shared restored ! n =
      (if n \<in> set ?ns
       then SetCapacityKey (Shared restore_mid ! n) (''tag'' @ '':'' @ ''red'')
              (GetCapacityKey (Shared restore_mid ! n) (''tag'' @ '':'' @ ''red'') + 1)
       else Shared restore_mid ! n)" for n
    unfolding restored_def by blast
  show "Shared restored ! Suc 0 = SetCapacityKey two_tags_shard ''tag:red'' 2"
    by (simp add: nth [of "Suc 0"] restore_mid_facts del: upt_rec_numeral)
  show "Shared restored ! 2 = SetCapacityKey (NewConcurrentMapShared [] 2 []) ''tag:red'' 1"
    by (simp add: nth [of 2] Shared_restore_mid_rest GetCapacityKey_new del: upt_rec_numeral)
qed

text \<open>C5 does not hold of the code.  When its scan of a shard ends without the \<^verbatim>\<open>return\<close>,
  \<^verbatim>\<open>RestoreByKey\<close> stores \<^verbatim>\<open>length+counter\<close> as the capacity of the fingerprint, \<^verbatim>\<open>counter\<close>
  being the number of descriptors restored so far in all shards.  With two records under
  \<open>tag:red\<close> in shard 1, the first of them deleted, \<^verbatim>\<open>RestoreByKey("tag", "red", 5)\<close>
  restores one descriptor and changes the capacity of \<open>tag:red\<close> from 1 to 2 in shard 1
  and from 0 to 1 in shard 2, which holds no key at all.\<close>

theorem RestoreByKey_changes_capacity:
  "Set world0 [by_tag] 7 fresh =
     (Inr (fmupd ''id:r1'' 1 (fmupd ''0:tag:red'' 1 fmempty)), one_tag) \<and>
   SetCounterIndex 0 one_tag = (None, one_tag\<lparr>counter := 0\<rparr>) \<and>
   Set world1 [by_tag] 8 (one_tag\<lparr>counter := 0\<rparr>) =
     (Inr (fmupd ''id:r2'' 1 (fmupd ''1:tag:red'' 1 fmempty)), two_tags) \<and>
   DeleteByKey ''tag'' ''red'' 1 two_tags = (Inr [''0:tag:red''], two_tags_deleted) \<and>
   GetCapacityKey (Shared two_tags_deleted ! 1) ''tag:red'' = 1 \<and>
   GetCapacityKey (Shared two_tags_deleted ! 2) ''tag:red'' = 0 \<and>
   fst (RestoreByKey ''tag'' ''red'' 5 two_tags_deleted) = Inr 1 \<and>
   GetCapacityKey (Shared (snd (RestoreByKey ''tag'' ''red'' 5 two_tags_deleted)) ! 1)
     ''tag:red'' = 2 \<and>
   GetCapacityKey (Shared (snd (RestoreByKey ''tag'' ''red'' 5 two_tags_deleted)) ! 2)
     ''tag:red'' = 1"
proof -
  have c1: "GetCapacityKey (Shared two_tags_deleted ! 1) ''tag:red'' = 1"
    by (simp add: Shared_two_tags_deleted Shared_two_tags_Suc0 GetCapacityKey_two_tags_shard)
  have c2: "GetCapacityKey (Shared two_tags_deleted ! 2) ''tag:red'' = 0"
    by (simp add: Shared_two_tags_deleted Shared_two_tags_other GetCapacityKey_new)
  have c3: "GetCapacityKey (Shared restored ! 1) ''tag:red'' = 2"
    by (simp add: restored_facts GetCapacityKey_def SetCapacityKey_def)
  have c4: "GetCapacityKey (Shared restored ! 2) ''tag:red'' = 1"
    by (simp add: restored_facts GetCapacityKey_def SetCapacityKey_def)
  show ?thesis
    unfolding restored_def [symmetric]
    by (intro conjI) (fact Set_one_tag SetCounterIndex_one_tag Set_two_tags
        DeleteByKey_two_tags restored_facts(1) c1 c2 c3 c4)+
qed

section \<open>The ordinals of a fingerprint and its capacity (C2)\<close>

lemma length_heap_restored: "length (heap restored) = 2"
  by (simp add: restored_facts(2) heap_two_tags)

lemma Set_after_restore:
  "fst (Set world2 [by_tag] 9 restored) = Inr (fmupd ''id:r3'' 2 (fmupd ''1:tag:red'' 2 fmempty))"
  "Items (Shared (snd (Set world2 [by_tag] 9 restored)) ! 2)
     = fmupd ''id:r3'' 2 (fmupd ''1:tag:red'' 2 fmempty)"
  "capacity (Shared (snd (Set world2 [by_tag] 9 restored)) ! 2)
     = fmupd ''tag:red'' 1 (fmupd ''tag:red'' 1 fmempty)"
  by (simp_all add: Set_def world0_def world2_def by_tag_def GetNextShard_def
      restored_facts(3-6) length_heap_restored NewConcurrentMapShared_def Let_def
      word_le_nat_alt GetCapacityKey_def SetCapacityKey_def next_index.simps Itoa_small)

text \<open>C2 does not hold of the code.  \<^verbatim>\<open>Set\<close> stores the ordinal it assigned, not the number
  of ordinals, as the capacity: after the first \<^verbatim>\<open>Set\<close> with the regular key \<open>tag:red\<close> the
  key \<open>0:tag:red\<close> is in shard 1 and the capacity of \<open>tag:red\<close> there is 0.  And the
  capacity that \<^verbatim>\<open>RestoreByKey\<close> left in shard 2 makes the next \<^verbatim>\<open>Set\<close>, which lands in shard
  2, store its record under \<open>1:tag:red\<close>, with no \<open>0:tag:red\<close> below it: a gap.\<close>

theorem density_broken:
  "Set world0 [by_tag] 7 fresh =
     (Inr (fmupd ''id:r1'' 1 (fmupd ''0:tag:red'' 1 fmempty)), one_tag) \<and>
   fmlookup (Items (Shared one_tag ! 1)) ''0:tag:red'' = Some 0 \<and>
   GetCapacityKey (Shared one_tag ! 1) ''tag:red'' = 0 \<and>
   \<not> density_spec (Shared one_tag ! 1) ''tag:red'' \<and>
   SetCounterIndex 0 one_tag = (None, one_tag\<lparr>counter := 0\<rparr>) \<and>
   Set world1 [by_tag] 8 (one_tag\<lparr>counter := 0\<rparr>) =
     (Inr (fmupd ''id:r2'' 1 (fmupd ''1:tag:red'' 1 fmempty)), two_tags) \<and>
   DeleteByKey ''tag'' ''red'' 1 two_tags = (Inr [''0:tag:red''], two_tags_deleted) \<and>
   RestoreByKey ''tag'' ''red'' 5 two_tags_deleted = (Inr 1, restored) \<and>
   fst (Set world2 [by_tag] 9 restored)
     = Inr (fmupd ''id:r3'' 2 (fmupd ''1:tag:red'' 2 fmempty)) \<and>
   fmlookup (Items (Shared (snd (Set world2 [by_tag] 9 restored)) ! 2)) ''1:tag:red'' = Some 2 \<and>
   fmlookup (Items (Shared (snd (Set world2 [by_tag] 9 restored)) ! 2)) ''0:tag:red'' = None \<and>
   GetCapacityKey (Shared (snd (Set world2 [by_tag] 9 restored)) ! 2) ''tag:red'' = 1 \<and>
   \<not> density_spec (Shared (snd (Set world2 [by_tag] 9 restored)) ! 2) ''tag:red''"
proof -
  let ?s1 = "Shared one_tag ! 1"
  let ?s2 = "Shared (snd (Set world2 [by_tag] 9 restored)) ! 2"
  have a: "fmlookup (Items ?s1) ''0:tag:red'' = Some 0"
    and b: "GetCapacityKey ?s1 ''tag:red'' = 0"
    by (simp_all add: one_tag_def length_fresh GetCapacityKey_def)
  have "\<exists>n. ''0:tag:red'' = Itoa n @ '':'' @ ''tag:red''"
    by (rule exI [of _ 0]) (simp add: Itoa_0)
  moreover have "''0:tag:red'' \<in> fmdom' (Items ?s1)"
    using a by (rule fmdom'I)
  ultimately have "''0:tag:red'' \<in> ordinal_keys ?s1 ''tag:red''"
    unfolding ordinal_keys_def by blast
  then have c: "\<not> density_spec ?s1 ''tag:red''"
    unfolding density_spec_def b by auto
  have d: "fmlookup (Items ?s2) ''1:tag:red'' = Some 2"
    and e: "fmlookup (Items ?s2) ''0:tag:red'' = None"
    and f: "GetCapacityKey ?s2 ''tag:red'' = 1"
    by (simp_all add: Set_after_restore GetCapacityKey_def)
  have "''0:tag:red'' \<in> (\<lambda>n. Itoa n @ '':'' @ ''tag:red'') ` {0 ..< 1}"
    by (rule image_eqI [where x = 0]) (simp_all add: Itoa_0)
  moreover have "''0:tag:red'' \<notin> ordinal_keys ?s2 ''tag:red''"
    unfolding ordinal_keys_def using fmdom'_notI [OF e] by blast
  ultimately have g: "\<not> density_spec ?s2 ''tag:red''"
    unfolding density_spec_def f by blast
  have h: "RestoreByKey ''tag'' ''red'' 5 two_tags_deleted = (Inr 1, restored)"
    by (rule prod_eqI) (simp_all add: restored_def restored_facts(1))
  show ?thesis
    by (intro conjI) (fact Set_one_tag a b c SetCounterIndex_one_tag Set_two_tags
        DeleteByKey_two_tags h Set_after_restore(1) d e f g)+
qed

section \<open>The count after the first \<^verbatim>\<open>Set\<close>\<close>

text \<open>The first scenario of the specification: after one \<^verbatim>\<open>Set\<close> with a unique key the
  count is 2, the identity entry and the unique key.\<close>

lemma Count_shards_empty:
  "(\<And>i. i \<in> set is \<Longrightarrow> i < length (Shared m) \<and> Items (Shared m ! i) = fmempty) \<Longrightarrow>
   Count_shards is m count = Inr count"
  by (induction "is" arbitrary: count) simp_all

lemma Count_after_email: "Count after_email = Inr 2"
proof -
  have "Count after_email = Count_shards (0 # Suc 0 # [2..<32]) after_email 0"
    by (simp add: Count_def SHARD_COUNT_def upt_32 del: upt_rec_numeral)
  also have "\<dots> = Count_shards [2..<32] after_email 2"
    by (simp add: length_after_email Shared_after_email_Suc0 Shared_after_email_other
        fcard_finsert_if fcard_fempty del: upt_rec_numeral)
  also have "\<dots> = Inr 2"
    by (rule Count_shards_empty) (auto simp: length_after_email Shared_after_email_other)
  finally show ?thesis .
qed

section \<open>The flag of a record and what the lookups return (C8)\<close>

lemma DeleteByUniqueKey_ordinal_after_both:
  "DeleteByUniqueKey 1 ''0'' ''tag:red'' after_both = (None, after_both_deleted)"
  by (simp add: DeleteByUniqueKey_def length_after_both Shared_after_both_Suc0
      heap_after_both set_Deleted_def after_both_deleted_def)

text \<open>C8 does not hold of the code.  The first half does: after \<^verbatim>\<open>Set\<close> with the regular
  key \<open>tag:red\<close> and the unique key \<open>email:a@x\<close> the keys \<open>0:tag:red\<close>, \<open>email:a@x\<close> and
  \<open>id:r1\<close> of shard 1 hold one address (in general, \<open>Set_entries_share_descriptor\<close>), and
  \<^verbatim>\<open>DeleteByUniqueKey\<close> through \<open>0:tag:red\<close> sets the flag read through the other two.  But
  the visibility of the record through the other keys does not change with it:
  \<^verbatim>\<open>FindByUniqueKey\<close> through \<open>email:a@x\<close> and \<^verbatim>\<open>FindById\<close> return the same payload, and no
  error, before and after, and \<^verbatim>\<open>FindByKey\<close>, which returned the payload before, does not
  return at all.\<close>

theorem toggle_leaves_lookups_unchanged:
  "Set world0 [by_tag, by_email] 7 fresh =
     (Inr (fmupd ''id:r1'' 1 (fmupd ''email:a@x'' 1 (fmupd ''0:tag:red'' 1 fmempty))),
      after_both) \<and>
   fmlookup (Items (Shared after_both ! 1)) ''0:tag:red'' = Some 0 \<and>
   fmlookup (Items (Shared after_both ! 1)) ''email:a@x'' = Some 0 \<and>
   fmlookup (Items (Shared after_both ! 1)) ''id:r1'' = Some 0 \<and>
   DeleteByUniqueKey 1 ''0'' ''tag:red'' after_both = (None, after_both_deleted) \<and>
   Deleted_via after_both 1 ''email:a@x'' = Some False \<and>
   Deleted_via after_both_deleted 1 ''email:a@x'' = Some True \<and>
   Deleted_via after_both_deleted 1 ''id:r1'' = Some True \<and>
   FindByUniqueKey after_both 1 ''email'' ''a@x'' = ([1, 2, 7], None) \<and>
   FindByUniqueKey after_both_deleted 1 ''email'' ''a@x'' = ([1, 2, 7], None) \<and>
   FindById after_both 1 ''r1'' = ([1, 2, 7], None) \<and>
   FindById after_both_deleted 1 ''r1'' = ([1, 2, 7], None) \<and>
   FindByKey after_both ''tag'' ''red'' 10 = Some (Inr [[1, 2, 7]]) \<and>
   FindByKey after_both_deleted ''tag'' ''red'' 10 = None"
proof -
  have look: "fmlookup (Items (Shared after_both ! 1)) ''0:tag:red'' = Some 0"
    "fmlookup (Items (Shared after_both ! 1)) ''email:a@x'' = Some 0"
    "fmlookup (Items (Shared after_both ! 1)) ''id:r1'' = Some 0"
    by (simp_all add: Shared_after_both_Suc0)
  have via: "Deleted_via after_both 1 ''email:a@x'' = Some False"
    "Deleted_via after_both_deleted 1 ''email:a@x'' = Some True"
    "Deleted_via after_both_deleted 1 ''id:r1'' = Some True"
    by (simp_all add: Deleted_via_def Shared_after_both_deleted Shared_after_both_Suc0
        heap_after_both heap_after_both_deleted)
  have find: "FindByUniqueKey after_both 1 ''email'' ''a@x'' = ([1, 2, 7], None)"
    "FindByUniqueKey after_both_deleted 1 ''email'' ''a@x'' = ([1, 2, 7], None)"
    "FindById after_both 1 ''r1'' = ([1, 2, 7], None)"
    "FindById after_both_deleted 1 ''r1'' = ([1, 2, 7], None)"
    by (simp_all add: FindById_def FindByUniqueKey_def ReadAtOffset_def
        Shared_after_both_deleted length_after_both Shared_after_both_Suc0
        heap_after_both heap_after_both_deleted)
  have live: "FindByKey after_both ''tag'' ''red'' 10 = Some (Inr [[1, 2, 7]])"
    by (rule FindByKey_after_both) simp_all
  have hang: "FindByKey after_both_deleted ''tag'' ''red'' 10 = None"
    by (simp add: FindByKey_def SHARD_COUNT_def upt_32 Shared_after_both_deleted
        length_after_both find_scan_shard0 find_scan_shard1_deleted)
  show ?thesis
    by (intro conjI) (fact Set_both look DeleteByUniqueKey_ordinal_after_both via find
        live hang)+
qed

end
